theory Spec2Isabelle
  imports Main
begin

section \<open>Random video chat: matchmaking and signalling state of app.py\<close>

text \<open>
  The server keeps five module-level variables and mutates them from its HTTP handlers.
  The model threads them through every handler as one record. A handler takes the fields
  it reads from the request and the state, and returns the response with the new state.
  Client and room identifiers are strings; a request field that is absent (or null) is
  \<open>None\<close>. A value drawn from \<open>uuid.uuid4()\<close> is an argument of the handler that
  draws it.
\<close>

subsection \<open>Data\<close>

datatype json =
    JNull
  | JBool bool
  | JNum int
  | JStr string
  | JArr "json list"
  | JObj "(string \<times> json) list"

text \<open>An entry of a client's queue: \<open>{"event": event, "data": data}\<close>.\<close>

record item =
  event :: string
  data :: "(string \<times> json) list"

text \<open>
  \<open>waiting_id\<close>, \<open>rooms\<close> (room id to its members, a dict from the keys "a" and "b" to client
  ids, kept in insertion order), \<open>peer_of\<close>, \<open>room_of\<close> and \<open>message_queues\<close> (a FIFO queue
  per client: \<open>put\<close> appends at the end, \<open>get\<close> takes the head).
\<close>

record state =
  waiting_id :: "string option"
  rooms :: "string \<rightharpoonup> (string \<times> string) list"
  peer_of :: "string \<rightharpoonup> string"
  room_of :: "string \<rightharpoonup> string"
  message_queues :: "string \<rightharpoonup> item list"

text \<open>A response: a JSON body with its status code, or the event stream of a client.\<close>

datatype response =
    Json json nat
  | EventStream string

definition init_state :: state where
  "init_state = \<lparr>waiting_id = None, rooms = Map.empty, peer_of = Map.empty,
     room_of = Map.empty, message_queues = Map.empty\<rparr>"

text \<open>Python's truth value of an optional string: \<open>None\<close> and \<open>""\<close> are false.\<close>

definition truthy :: "string option \<Rightarrow> bool" where
  "truthy x = (case x of None \<Rightarrow> False | Some v \<Rightarrow> v \<noteq> [])"

subsection \<open>Queues\<close>

definition ensure_queue :: "string \<Rightarrow> state \<Rightarrow> state" where
  "ensure_queue cid s =
     (case message_queues s cid of
        None \<Rightarrow> s\<lparr>message_queues := (message_queues s)(cid \<mapsto> [])\<rparr>
      | Some q \<Rightarrow> s)"

definition enqueue :: "string \<Rightarrow> string \<Rightarrow> (string \<times> json) list \<Rightarrow> state \<Rightarrow> state" where
  "enqueue cid ev d s =
     (case message_queues s cid of
        None \<Rightarrow> s
      | Some q \<Rightarrow> s\<lparr>message_queues := (message_queues s)(cid \<mapsto> q @ [\<lparr>event = ev, data = d\<rparr>])\<rparr>)"

subsection \<open>Leaving a room\<close>

text \<open>
  \<open>_leave_current_room\<close>. The members dict is filtered in place (every key whose value is
  \<open>cid\<close> is deleted), stored back, and the room is dropped only when no member is left.
\<close>

definition leave_current_room :: "string \<Rightarrow> bool \<Rightarrow> state \<Rightarrow> state" where
  "leave_current_room cid notify_peer s =
     (let rid = room_of s cid;
          s1 = s\<lparr>room_of := (room_of s)(cid := None)\<rparr>
      in if \<not> truthy rid then
           (if waiting_id s1 = Some cid then s1\<lparr>waiting_id := None\<rparr> else s1)
         else
           (let other = peer_of s1 cid;
                s2 = s1\<lparr>peer_of := (peer_of s1)(cid := None)\<rparr>;
                s3 = (if truthy other
                      then s2\<lparr>peer_of := (peer_of s2)(the other := None)\<rparr> else s2);
                members = filter (\<lambda>(k, v). v \<noteq> cid)
                            (case rooms s3 (the rid) of None \<Rightarrow> [] | Some m \<Rightarrow> m);
                s4 = s3\<lparr>rooms := (rooms s3)(the rid \<mapsto> members)\<rparr>;
                s5 = (if notify_peer \<and> truthy other
                      then enqueue (the other) ''peer-left'' [] s4 else s4)
            in if members = [] then s5\<lparr>rooms := (rooms s5)(the rid := None)\<rparr> else s5))"

subsection \<open>HTTP handlers\<close>

definition missing_id :: response where
  "missing_id = Json (JObj [(''error'', JStr ''missing id'')]) 400"

definition ok_response :: response where
  "ok_response = Json (JObj [(''ok'', JBool True)]) 200"

text \<open>The status text ends in U+2026 (horizontal ellipsis), here as its UTF-8 bytes.\<close>

definition searching_msg :: string where
  "searching_msg = ''Searching for a partner'' @ [CHR 0xE2, CHR 0x80, CHR 0xA6]"

text \<open>\<open>register\<close>: \<open>u\<close> is the uuid drawn for the new client.\<close>

definition register :: "string \<Rightarrow> state \<Rightarrow> response \<times> state" where
  "register u s = (Json (JObj [(''id'', JStr u)]) 200, ensure_queue u s)"

text \<open>\<open>find_partner\<close>: \<open>u\<close> is the uuid drawn for the room when a pair is formed.\<close>

definition find_partner :: "string \<Rightarrow> string option \<Rightarrow> state \<Rightarrow> response \<times> state" where
  "find_partner u req_id s =
     (if \<not> truthy req_id then (missing_id, s)
      else
        (let cid = the req_id;
             s1 = (if room_of s cid \<noteq> None then leave_current_room cid False s else s)
         in if truthy (waiting_id s1) \<and> waiting_id s1 \<noteq> Some cid then
              (let other = the (waiting_id s1);
                   s2 = s1\<lparr>waiting_id := None\<rparr>;
                   rid = u;
                   s3 = s2\<lparr>rooms := (rooms s2)(rid \<mapsto> [(''a'', other), (''b'', cid)])\<rparr>;
                   s4 = s3\<lparr>peer_of := (peer_of s3)(other \<mapsto> cid)\<rparr>;
                   s5 = s4\<lparr>peer_of := (peer_of s4)(cid \<mapsto> other)\<rparr>;
                   s6 = s5\<lparr>room_of := (room_of s5)(other \<mapsto> rid)\<rparr>;
                   s7 = s6\<lparr>room_of := (room_of s6)(cid \<mapsto> rid)\<rparr>;
                   s8 = enqueue other ''matched''
                          [(''room'', JStr rid), (''role'', JStr ''caller''), (''peer'', JStr cid)] s7;
                   s9 = enqueue cid ''matched''
                          [(''room'', JStr rid), (''role'', JStr ''callee''), (''peer'', JStr other)] s8
               in (Json (JObj [(''status'', JStr ''matched''), (''room'', JStr rid)]) 200, s9))
            else
              (let s2 = s1\<lparr>waiting_id := Some cid\<rparr>;
                   s3 = enqueue cid ''status'' [(''msg'', JStr searching_msg)] s2
               in (Json (JObj [(''status'', JStr ''waiting'')]) 200, s3))))"

text \<open>\<open>signal\<close>: the fields \<open>id\<close>, \<open>to\<close>, \<open>type\<close> and \<open>payload\<close> of the request.\<close>

definition signal :: "string option \<Rightarrow> string option \<Rightarrow> string option \<Rightarrow> json \<Rightarrow> state
    \<Rightarrow> response \<times> state" where
  "signal req_id req_to req_type payload s =
     (if \<not> (truthy req_id \<and> truthy req_to \<and> truthy req_type) then
        (Json (JObj [(''error'', JStr ''missing fields'')]) 400, s)
      else if message_queues s (the req_to) = None then
        (Json (JObj [(''error'', JStr ''peer not found'')]) 404, s)
      else
        (ok_response,
         enqueue (the req_to) ''signal''
           [(''from'', JStr (the req_id)), (''type'', JStr (the req_type)), (''payload'', payload)] s))"

definition next_partner :: "string \<Rightarrow> string option \<Rightarrow> state \<Rightarrow> response \<times> state" where
  "next_partner u req_id s =
     (if \<not> truthy req_id then (missing_id, s)
      else find_partner u req_id (leave_current_room (the req_id) True s))"

definition leave :: "string option \<Rightarrow> state \<Rightarrow> response \<times> state" where
  "leave req_id s =
     (if \<not> truthy req_id then (missing_id, s)
      else
        (let cid = the req_id;
             s1 = leave_current_room cid True s;
             s2 = enqueue cid ''status'' [(''msg'', JStr ''Left the chat.'')] s1
         in (ok_response, s2)))"

text \<open>
  \<open>events\<close> creates the queue of the client when it has none and returns the stream. The
  stream's generator then takes one item at a time from that queue (\<open>q_get\<close>; \<open>None\<close>
  is the \<open>Empty\<close> of a wait that timed out).
\<close>

definition events :: "string option \<Rightarrow> state \<Rightarrow> response \<times> state" where
  "events req_id s =
     (if \<not> truthy req_id then (missing_id, s)
      else (EventStream (the req_id), ensure_queue (the req_id) s))"

definition q_get :: "string \<Rightarrow> state \<Rightarrow> (item \<times> state) option" where
  "q_get cid s =
     (case message_queues s cid of
        None \<Rightarrow> None
      | Some [] \<Rightarrow> None
      | Some (x # q) \<Rightarrow> Some (x, s\<lparr>message_queues := (message_queues s)(cid \<mapsto> q)\<rparr>))"

text \<open>\<open>_test_pull\<close> drains the queue of a client; \<open>enabled\<close> is \<open>tests_enabled()\<close>.\<close>

definition item_json :: "item \<Rightarrow> json" where
  "item_json i = JObj [(''event'', JStr (event i)), (''data'', JObj (data i))]"

definition test_pull :: "bool \<Rightarrow> string option \<Rightarrow> state \<Rightarrow> response \<times> state" where
  "test_pull enabled req_id s =
     (if \<not> enabled then (Json (JObj [(''error'', JStr ''disabled'')]) 403, s)
      else if \<not> truthy req_id then (missing_id, s)
      else
        (let cid = the req_id;
             s1 = ensure_queue cid s;
             q = (case message_queues s1 cid of None \<Rightarrow> [] | Some q \<Rightarrow> q)
         in (Json (JArr (map item_json q)) 200,
             s1\<lparr>message_queues := (message_queues s1)(cid \<mapsto> [])\<rparr>)))"

subsection \<open>Reachable states\<close>

text \<open>
  The states the server can be in: the initial one, and every state a handler (or a
  stream taking an item) produces from a reachable one. A uuid is never the empty string,
  and the uuid drawn for a room is not the id of a room that exists (uuid4 values are
  taken as collision-free).
\<close>

inductive reachable :: "state \<Rightarrow> bool" where
  r_init: "reachable init_state"
| r_register: "reachable s \<Longrightarrow> u \<noteq> [] \<Longrightarrow> reachable (snd (register u s))"
| r_find: "reachable s \<Longrightarrow> u \<noteq> [] \<Longrightarrow> rooms s u = None
    \<Longrightarrow> reachable (snd (find_partner u req_id s))"
| r_signal: "reachable s \<Longrightarrow> reachable (snd (signal req_id req_to req_type payload s))"
| r_next: "reachable s \<Longrightarrow> u \<noteq> [] \<Longrightarrow> rooms s u = None
    \<Longrightarrow> reachable (snd (next_partner u req_id s))"
| r_leave: "reachable s \<Longrightarrow> reachable (snd (leave req_id s))"
| r_events: "reachable s \<Longrightarrow> reachable (snd (events req_id s))"
| r_get: "reachable s \<Longrightarrow> q_get cid s = Some (x, s') \<Longrightarrow> reachable s'"
| r_test_pull: "reachable s \<Longrightarrow> reachable (snd (test_pull enabled req_id s))"

subsection \<open>Consistency of the indexes\<close>

text \<open>
  Four properties that hold together in every reachable state: the waiting client is in no
  room; a room index entry names a room that lists the client; a room has one or two
  members, each indexed to it; a peer entry is mutual and joins the two members of a room.
\<close>

definition slot_ok :: "state \<Rightarrow> bool" where
  "slot_ok s = (\<forall>w. waiting_id s = Some w \<longrightarrow> w \<noteq> [] \<and> room_of s w = None)"

definition index_ok :: "state \<Rightarrow> bool" where
  "index_ok s = (\<forall>c r. room_of s c = Some r \<longrightarrow>
     r \<noteq> [] \<and> (\<exists>m. rooms s r = Some m \<and> c \<in> snd ` set m))"

definition rooms_ok :: "state \<Rightarrow> bool" where
  "rooms_ok s = (\<forall>r m. rooms s r = Some m \<longrightarrow>
     (length m = 1 \<or> length m = 2) \<and> (\<forall>c \<in> snd ` set m. room_of s c = Some r))"

definition peers_ok :: "state \<Rightarrow> bool" where
  "peers_ok s = (\<forall>a b. peer_of s a = Some b \<longrightarrow>
     b \<noteq> [] \<and> a \<noteq> b \<and> peer_of s b = Some a \<and>
     (\<exists>r. room_of s a = Some r \<and>
        (rooms s r = Some [(''a'', a), (''b'', b)] \<or> rooms s r = Some [(''a'', b), (''b'', a)])))"

definition consistent :: "state \<Rightarrow> bool" where
  "consistent s = (slot_ok s \<and> index_ok s \<and> rooms_ok s \<and> peers_ok s)"

text \<open>
  The state after \<open>find_partner\<close> has formed a pair (before the two events are queued), and
  the state after its implicit leave.
\<close>

definition pair_state :: "string \<Rightarrow> string \<Rightarrow> string \<Rightarrow> state \<Rightarrow> state" where
  "pair_state u other cid s =
     s\<lparr>waiting_id := None,
       rooms := (rooms s)(u \<mapsto> [(''a'', other), (''b'', cid)]),
       peer_of := (peer_of s)(other \<mapsto> cid, cid \<mapsto> other),
       room_of := (room_of s)(other \<mapsto> u, cid \<mapsto> u)\<rparr>"

definition left_room :: "string \<Rightarrow> state \<Rightarrow> state" where
  "left_room cid s = (if room_of s cid \<noteq> None then leave_current_room cid False s else s)"


text \<open>
  What is left of a room \<open>rid\<close> once \<open>a\<close> has left it and \<open>b\<close> stays: \<open>b\<close> alone is listed
  and still indexed to it, \<open>b\<close> has no peer, and \<open>a\<close> refers neither to \<open>b\<close> nor to the room.
\<close>

definition one_member_left :: "string \<Rightarrow> string \<Rightarrow> string \<Rightarrow> state \<Rightarrow> bool" where
  "one_member_left a b rid s =
     ((rooms s rid = Some [(''a'', b)] \<or> rooms s rid = Some [(''b'', b)])
      \<and> room_of s b = Some rid \<and> peer_of s b = None
      \<and> peer_of s a \<noteq> Some b \<and> room_of s a \<noteq> Some rid)"

subsection \<open>Sequences of calls and sample runs\<close>

text \<open>
  \<open>next_partner_spec\<close> is the specification's wording of \<open>nextPartner(id)\<close>: leaving the room
  with the peer notified, immediately followed by \<open>findPartner(id)\<close>.
\<close>

definition next_partner_spec :: "string \<Rightarrow> string \<Rightarrow> state \<Rightarrow> response \<times> state" where
  "next_partner_spec u cid s = find_partner u (Some cid) (leave_current_room cid True s)"

text \<open>
  \<open>relay_all\<close>: one \<open>signal\<close> request from \<open>a\<close> to \<open>b\<close> for each (type, payload) of a list,
  in the order of the list, with the response of each.
\<close>

fun relay_all :: "string \<Rightarrow> string \<Rightarrow> (string \<times> json) list \<Rightarrow> state \<Rightarrow> response list \<times> state" where
  "relay_all a b [] s = ([], s)"
| "relay_all a b ((t, p) # ms) s =
     (let (r, s1) = signal (Some a) (Some b) (Some t) p s;
          (rs, s2) = relay_all a b ms s1
      in (r # rs, s2))"

definition signal_item :: "string \<Rightarrow> string \<times> json \<Rightarrow> item" where
  "signal_item a m = \<lparr>event = ''signal'',
     data = [(''from'', JStr a), (''type'', JStr (fst m)), (''payload'', snd m)]\<rparr>"

text \<open>
  The run of the unit tests: two clients register, the first asks for a partner, then the
  second; then the first leaves. The room's uuid is \<open>r1\<close>.
\<close>

definition ex_registered :: state where
  "ex_registered = snd (register ''B'' (snd (register ''A'' init_state)))"

definition ex_waiting :: state where
  "ex_waiting = snd (find_partner ''r1'' (Some ''A'') ex_registered)"

definition ex_paired :: state where
  "ex_paired = snd (find_partner ''r1'' (Some ''B'') ex_waiting)"

definition ex_left :: state where
  "ex_left = snd (leave (Some ''A'') ex_paired)"

section \<open>Preservation of consistency\<close>

lemma enqueue_fields [simp]:
  "waiting_id (enqueue c e d s) = waiting_id s"
  "rooms (enqueue c e d s) = rooms s"
  "peer_of (enqueue c e d s) = peer_of s"
  "room_of (enqueue c e d s) = room_of s"
  by (simp_all add: enqueue_def split: option.splits)

lemma ensure_queue_fields [simp]:
  "waiting_id (ensure_queue c s) = waiting_id s"
  "rooms (ensure_queue c s) = rooms s"
  "peer_of (ensure_queue c s) = peer_of s"
  "room_of (ensure_queue c s) = room_of s"
  by (simp_all add: ensure_queue_def split: option.splits)

lemma consistent_queues:
  "waiting_id t = waiting_id s \<Longrightarrow> rooms t = rooms s \<Longrightarrow> peer_of t = peer_of s
    \<Longrightarrow> room_of t = room_of s \<Longrightarrow> consistent t = consistent s"
  by (simp add: consistent_def slot_ok_def index_ok_def rooms_ok_def peers_ok_def)

lemma leave_no_room:
  "\<not> truthy (room_of s cid) \<Longrightarrow>
   leave_current_room cid n s =
     s\<lparr>room_of := (room_of s)(cid := None),
       waiting_id := (if waiting_id s = Some cid then None else waiting_id s)\<rparr>"
  by (simp add: leave_current_room_def Let_def)

lemma leave_room_fields:
  assumes "room_of s cid = Some rid" "rid \<noteq> []"
  shows "waiting_id (leave_current_room cid n s) = waiting_id s"
    and "room_of (leave_current_room cid n s) = (room_of s)(cid := None)"
    and "peer_of (leave_current_room cid n s) =
      (if truthy (peer_of s cid) then (peer_of s)(cid := None, the (peer_of s cid) := None)
       else (peer_of s)(cid := None))"
    and "rooms (leave_current_room cid n s) =
      (let members = filter (\<lambda>(k, v). v \<noteq> cid) (case rooms s rid of None \<Rightarrow> [] | Some m \<Rightarrow> m)
       in if members = [] then (rooms s)(rid := None) else (rooms s)(rid \<mapsto> members))"
    and "message_queues (leave_current_room cid n s) =
      (if n \<and> truthy (peer_of s cid)
       then message_queues (enqueue (the (peer_of s cid)) ''peer-left'' [] s)
       else message_queues s)"
  using assms
  by (simp_all add: leave_current_room_def Let_def truthy_def enqueue_def split: option.splits)

lemma upd_none_idem: "room_of s cid = None \<Longrightarrow> s\<lparr>room_of := (room_of s)(cid := None)\<rparr> = s"
proof -
  assume a: "room_of s cid = None"
  have "(room_of s)(cid := None) = room_of s" using a by (rule fun_upd_idem)
  then have "s\<lparr>room_of := (room_of s)(cid := None)\<rparr> = s\<lparr>room_of := room_of s\<rparr>" by (rule arg_cong)
  then show ?thesis by simp
qed

lemma leave_no_room_state:
  assumes "room_of s cid = None"
  shows "leave_current_room cid n s =
    (if waiting_id s = Some cid then s\<lparr>waiting_id := None\<rparr> else s)"
proof -
  have "leave_current_room cid n s =
     (let s1 = s\<lparr>room_of := (room_of s)(cid := None)\<rparr>
      in if waiting_id s1 = Some cid then s1\<lparr>waiting_id := None\<rparr> else s1)"
    by (simp only: leave_current_room_def Let_def assms truthy_def option.case if_True not_False_eq_True)
  then show ?thesis by (simp only: Let_def upd_none_idem [OF assms])
qed


lemma consistent_clear_slot: "consistent s \<Longrightarrow> consistent (s\<lparr>waiting_id := None\<rparr>)"
proof -
  have "slot_ok (s\<lparr>waiting_id := None\<rparr>)" by (simp add: slot_ok_def)
  moreover have "index_ok (s\<lparr>waiting_id := None\<rparr>) = index_ok s" by (simp add: index_ok_def)
  moreover have "rooms_ok (s\<lparr>waiting_id := None\<rparr>) = rooms_ok s" by (simp add: rooms_ok_def)
  moreover have "peers_ok (s\<lparr>waiting_id := None\<rparr>) = peers_ok s" by (simp add: peers_ok_def)
  moreover assume "consistent s"
  ultimately show ?thesis by (simp add: consistent_def)
qed

lemma leave_no_room_consistent:
  assumes "consistent s" "room_of s cid = None"
  shows "consistent (leave_current_room cid n s)"
  using assms(1) consistent_clear_slot [OF assms(1)]
  by (simp add: leave_no_room_state [OF assms(2)])

lemma filter_members_length:
  "length m = 1 \<or> length m = 2 \<Longrightarrow> filter P m \<noteq> [] \<Longrightarrow>
   length (filter P m) = 1 \<or> length (filter P m) = 2"
proof -
  assume a: "length m = 1 \<or> length m = 2" and b: "filter P m \<noteq> []"
  have "length (filter P m) \<le> length m" by (rule length_filter_le)
  moreover have "length (filter P m) \<noteq> 0" using b by simp
  ultimately show ?thesis using a by arith
qed

lemma leave_room_slot:
  assumes "consistent s" "room_of s cid = Some rid"
  shows "slot_ok (leave_current_room cid n s)"
proof -
  have rid: "rid \<noteq> []" using assms by (auto simp: consistent_def index_ok_def)
  show ?thesis using assms
    by (auto simp: leave_room_fields [OF assms(2) rid] consistent_def slot_ok_def)
qed

lemma leave_room_index:
  assumes "consistent s" "room_of s cid = Some rid"
  shows "index_ok (leave_current_room cid n s)"
proof -
  have rid: "rid \<noteq> []" using assms by (auto simp: consistent_def index_ok_def)
  have idx: "index_ok s" using assms by (simp add: consistent_def)
  show ?thesis
    unfolding index_ok_def
  proof (intro allI impI)
    fix c r
    assume h: "room_of (leave_current_room cid n s) c = Some r"
    then have c: "c \<noteq> cid" "room_of s c = Some r"
      by (auto simp: leave_room_fields [OF assms(2) rid] split: if_splits)
    then obtain m where m: "r \<noteq> []" "rooms s r = Some m" "c \<in> snd ` set m"
      using idx unfolding index_ok_def by blast
    show "r \<noteq> [] \<and> (\<exists>m. rooms (leave_current_room cid n s) r = Some m \<and> c \<in> snd ` set m)"
    proof (cases "r = rid")
      case True
      have cm: "c \<in> snd ` set (filter (\<lambda>(k, v). v \<noteq> cid) m)" using m c by force
      moreover have "filter (\<lambda>(k, v). v \<noteq> cid) m \<noteq> []" using cm by (cases "filter (\<lambda>(k, v). v \<noteq> cid) m") simp_all
      ultimately show ?thesis using m True
        by (simp add: leave_room_fields [OF assms(2) rid] Let_def)
    next
      case False
      then show ?thesis using m
        by (auto simp: leave_room_fields [OF assms(2) rid] Let_def)
    qed
  qed
qed

lemma rooms_okD:
  assumes "rooms_ok s" "rooms s r = Some m"
  shows "length m = 1 \<or> length m = 2" "\<And>c. c \<in> snd ` set m \<Longrightarrow> room_of s c = Some r"
  using assms unfolding rooms_ok_def by blast+

lemma leave_room_rooms:
  assumes "consistent s" "room_of s cid = Some rid"
  shows "rooms_ok (leave_current_room cid n s)"
proof -
  have rid: "rid \<noteq> []" using assms by (auto simp: consistent_def index_ok_def)
  have rk: "rooms_ok s" using assms by (simp add: consistent_def)
  note ro = leave_room_fields(2) [OF assms(2) rid, of n]
  note rm = leave_room_fields(4) [OF assms(2) rid, of n]
  show ?thesis
    unfolding rooms_ok_def
  proof (intro allI impI)
    fix r m
    assume h: "rooms (leave_current_room cid n s) r = Some m"
    show "(length m = 1 \<or> length m = 2) \<and>
       (\<forall>c\<in>snd ` set m. room_of (leave_current_room cid n s) c = Some r)"
    proof (cases "r = rid")
      case True
      let ?m0 = "case rooms s rid of None \<Rightarrow> [] | Some m \<Rightarrow> m"
      have m: "m = filter (\<lambda>(k, v). v \<noteq> cid) ?m0" "m \<noteq> []"
        using h True by (auto simp: rm Let_def split: if_splits)
      then obtain m0 where m0: "rooms s rid = Some m0" by (cases "rooms s rid") auto
      have mf: "m = filter (\<lambda>(k, v). v \<noteq> cid) m0" using m(1) m0 by simp
      have len: "length m = 1 \<or> length m = 2"
        using filter_members_length [OF rooms_okD(1) [OF rk m0], of "\<lambda>(k, v). v \<noteq> cid"] m(2) mf
        by simp
      have "room_of (leave_current_room cid n s) c = Some r" if c: "c \<in> snd ` set m" for c
      proof -
        have "c \<in> snd ` set m0" "c \<noteq> cid" using c mf by auto
        then show ?thesis using rooms_okD(2) [OF rk m0] True by (simp add: ro)
      qed
      then show ?thesis using len by blast
    next
      case False
      then have r: "rooms s r = Some m" using h
        by (auto simp: rm Let_def split: if_splits)
      have "room_of (leave_current_room cid n s) c = Some r" if c: "c \<in> snd ` set m" for c
      proof -
        have rc: "room_of s c = Some r" by (rule rooms_okD(2) [OF rk r c])
        then have "c \<noteq> cid" using assms(2) False by auto
        then show ?thesis using rc by (simp add: ro)
      qed
      then show ?thesis using rooms_okD(1) [OF rk r] by blast
    qed
  qed
qed

lemma peers_okD:
  assumes "peers_ok s" "peer_of s a = Some b"
  shows "b \<noteq> []" "a \<noteq> b" "peer_of s b = Some a"
    "\<exists>r. room_of s a = Some r \<and>
        (rooms s r = Some [(''a'', a), (''b'', b)] \<or> rooms s r = Some [(''a'', b), (''b'', a)])"
  using assms unfolding peers_ok_def by blast+

lemma index_okD:
  assumes "index_ok s" "room_of s c = Some r"
  shows "r \<noteq> []" "\<exists>m. rooms s r = Some m \<and> c \<in> snd ` set m"
  using assms unfolding index_ok_def by blast+

lemma leave_room_peer_of:
  assumes "consistent s" "room_of s cid = Some rid"
  shows "peer_of (leave_current_room cid n s) a =
    (if a = cid \<or> peer_of s a = Some cid then None else peer_of s a)"
proof -
  have rid: "rid \<noteq> []" using assms by (auto simp: consistent_def index_ok_def)
  have pk: "peers_ok s" using assms by (simp add: consistent_def)
  show ?thesis
  proof (cases "peer_of s cid")
    case None
    have "peer_of s a \<noteq> Some cid" using peers_okD(3) [OF pk, of a cid] None by auto
    then show ?thesis using None
      by (simp add: leave_room_fields(3) [OF assms(2) rid] truthy_def)
  next
    case (Some b)
    have b: "b \<noteq> []" by (rule peers_okD(1) [OF pk Some])
    have "peer_of s a = Some cid \<longleftrightarrow> a = b"
      using peers_okD(3) [OF pk, of a cid] peers_okD(3) [OF pk Some] Some by auto
    then show ?thesis using Some b
      by (simp add: leave_room_fields(3) [OF assms(2) rid] truthy_def)
  qed
qed

lemma leave_room_peers:
  assumes "consistent s" "room_of s cid = Some rid"
  shows "peers_ok (leave_current_room cid n s)"
proof -
  have rid: "rid \<noteq> []" using assms by (auto simp: consistent_def index_ok_def)
  have pk: "peers_ok s" using assms by (simp add: consistent_def)
  have ik: "index_ok s" using assms by (simp add: consistent_def)
  show ?thesis
    unfolding peers_ok_def
  proof (intro allI impI)
    fix a b
    assume h: "peer_of (leave_current_room cid n s) a = Some b"
    then have ab: "peer_of s a = Some b" "a \<noteq> cid" "b \<noteq> cid"
      by (auto simp: leave_room_peer_of [OF assms] split: if_splits)
    note d = peers_okD [OF pk ab(1)]
    from d(4) obtain r where r: "room_of s a = Some r"
      "rooms s r = Some [(''a'', a), (''b'', b)] \<or> rooms s r = Some [(''a'', b), (''b'', a)]"
      by blast
    have rr: "r \<noteq> rid"
    proof
      assume "r = rid"
      obtain m where "rooms s rid = Some m" "cid \<in> snd ` set m"
        using index_okD(2) [OF ik assms(2)] by blast
      then show False using r(2) \<open>r = rid\<close> ab by auto
    qed
    have pb: "peer_of (leave_current_room cid n s) b = Some a"
      using d(3) ab by (simp add: leave_room_peer_of [OF assms])
    have ro: "room_of (leave_current_room cid n s) a = Some r"
      using r(1) ab by (simp add: leave_room_fields(2) [OF assms(2) rid])
    have rm: "rooms (leave_current_room cid n s) r = rooms s r"
      using rr by (simp add: leave_room_fields(4) [OF assms(2) rid] Let_def)
    show "b \<noteq> [] \<and> a \<noteq> b \<and> peer_of (leave_current_room cid n s) b = Some a \<and>
       (\<exists>r. room_of (leave_current_room cid n s) a = Some r \<and>
            (rooms (leave_current_room cid n s) r = Some [(''a'', a), (''b'', b)] \<or>
             rooms (leave_current_room cid n s) r = Some [(''a'', b), (''b'', a)]))"
      using d(1,2) pb ro rm r(2) by simp
  qed
qed

lemma leave_consistent:
  assumes "consistent s"
  shows "consistent (leave_current_room cid n s)"
proof (cases "room_of s cid")
  case None
  then show ?thesis using assms by (rule leave_no_room_consistent [rotated])
next
  case (Some rid)
  then show ?thesis
    using leave_room_slot [OF assms Some] leave_room_index [OF assms Some]
      leave_room_rooms [OF assms Some] leave_room_peers [OF assms Some]
    by (simp add: consistent_def)
qed

lemma consistent_wait:
  assumes "consistent s" "cid \<noteq> []" "room_of s cid = None"
  shows "consistent (s\<lparr>waiting_id := Some cid\<rparr>)"
proof -
  have "slot_ok (s\<lparr>waiting_id := Some cid\<rparr>)" using assms(2,3) by (simp add: slot_ok_def)
  moreover have "index_ok (s\<lparr>waiting_id := Some cid\<rparr>) = index_ok s" by (simp add: index_ok_def)
  moreover have "rooms_ok (s\<lparr>waiting_id := Some cid\<rparr>) = rooms_ok s" by (simp add: rooms_ok_def)
  moreover have "peers_ok (s\<lparr>waiting_id := Some cid\<rparr>) = peers_ok s" by (simp add: peers_ok_def)
  ultimately show ?thesis using assms(1) by (simp add: consistent_def)
qed

lemma slot_okD:
  assumes "slot_ok s" "waiting_id s = Some w"
  shows "w \<noteq> []" "room_of s w = None"
  using assms unfolding slot_ok_def by blast+

lemma peer_needs_room:
  assumes "peers_ok s" "room_of s c = None"
  shows "peer_of s c = None" "peer_of s x \<noteq> Some c"
proof -
  show a: "peer_of s c = None"
  proof (cases "peer_of s c")
    case (Some b)
    then show ?thesis using peers_okD(4) [OF assms(1) Some] assms(2) by simp
  qed simp
  show "peer_of s x \<noteq> Some c"
  proof
    assume "peer_of s x = Some c"
    then have "peer_of s c = Some x" by (rule peers_okD(3) [OF assms(1)])
    then show False using a by simp
  qed
qed

lemma pair_consistent:
  assumes c: "consistent s" and w: "waiting_id s = Some other" and ne: "other \<noteq> cid"
    and cid: "cid \<noteq> []" and u: "u \<noteq> []" and fresh: "rooms s u = None"
    and nr: "room_of s cid = None"
  shows "consistent (pair_state u other cid s)"
proof -
  have sk: "slot_ok s" and ik: "index_ok s" and rk: "rooms_ok s" and pk: "peers_ok s"
    using c by (simp_all add: consistent_def)
  note o = slot_okD [OF sk w]
  have nou: "room_of s x \<noteq> Some u" for x
    using index_okD(2) [OF ik, of x u] fresh by auto
  have s1: "slot_ok (pair_state u other cid s)"
    by (simp add: slot_ok_def pair_state_def)
  have s2: "index_ok (pair_state u other cid s)"
    unfolding index_ok_def
  proof (intro allI impI)
    fix c r
    assume h: "room_of (pair_state u other cid s) c = Some r"
    show "r \<noteq> [] \<and> (\<exists>m. rooms (pair_state u other cid s) r = Some m \<and> c \<in> snd ` set m)"
    proof (cases "c = other \<or> c = cid")
      case True
      then have "r = u" using h by (auto simp: pair_state_def split: if_splits)
      then show ?thesis using True u by (auto simp: pair_state_def)
    next
      case False
      then have rc: "room_of s c = Some r" using h by (simp add: pair_state_def)
      then have "r \<noteq> u" using nou by auto
      then show ?thesis using index_okD [OF ik rc] by (simp add: pair_state_def)
    qed
  qed
  have s3: "rooms_ok (pair_state u other cid s)"
    unfolding rooms_ok_def
  proof (intro allI impI)
    fix r m
    assume h: "rooms (pair_state u other cid s) r = Some m"
    show "(length m = 1 \<or> length m = 2) \<and>
       (\<forall>c\<in>snd ` set m. room_of (pair_state u other cid s) c = Some r)"
    proof (cases "r = u")
      case True
      then have "m = [(''a'', other), (''b'', cid)]" using h by (simp add: pair_state_def)
      then show ?thesis using True by (simp add: pair_state_def)
    next
      case False
      then have rm: "rooms s r = Some m" using h by (simp add: pair_state_def)
      have "room_of (pair_state u other cid s) c = Some r" if cm: "c \<in> snd ` set m" for c
      proof -
        have rc: "room_of s c = Some r" by (rule rooms_okD(2) [OF rk rm cm])
        then have "c \<noteq> other" "c \<noteq> cid" using o(2) nr by auto
        then show ?thesis using rc by (simp add: pair_state_def)
      qed
      then show ?thesis using rooms_okD(1) [OF rk rm] by blast
    qed
  qed
  have s4: "peers_ok (pair_state u other cid s)"
    unfolding peers_ok_def
  proof (intro allI impI)
    fix a b
    assume h: "peer_of (pair_state u other cid s) a = Some b"
    let ?t = "pair_state u other cid s"
    show "b \<noteq> [] \<and> a \<noteq> b \<and> peer_of ?t b = Some a \<and>
       (\<exists>r. room_of ?t a = Some r \<and>
            (rooms ?t r = Some [(''a'', a), (''b'', b)] \<or> rooms ?t r = Some [(''a'', b), (''b'', a)]))"
    proof (cases "a = other \<or> a = cid")
      case True
      then show ?thesis using h ne cid o(1) by (auto simp: pair_state_def)
    next
      case False
      then have ab: "peer_of s a = Some b" using h by (simp add: pair_state_def)
      have b: "b \<noteq> other" "b \<noteq> cid"
        using peer_needs_room(2) [OF pk o(2), of a] peer_needs_room(2) [OF pk nr, of a] ab by auto
      note d = peers_okD [OF pk ab]
      from d(4) obtain r where r: "room_of s a = Some r"
        "rooms s r = Some [(''a'', a), (''b'', b)] \<or> rooms s r = Some [(''a'', b), (''b'', a)]"
        by blast
      have "r \<noteq> u" using nou r(1) by auto
      then have "rooms ?t r = rooms s r" "room_of ?t a = Some r" "peer_of ?t b = Some a"
        using False b r(1) d(3) by (simp_all add: pair_state_def)
      then show ?thesis using d(1,2) r(2) by simp
    qed
  qed
  show ?thesis using s1 s2 s3 s4 by (simp add: consistent_def)
qed

lemma find_partner_match:
  assumes "cid \<noteq> []" "waiting_id (left_room cid s) = Some other" "other \<noteq> []" "other \<noteq> cid"
  shows "find_partner u (Some cid) s =
    (Json (JObj [(''status'', JStr ''matched''), (''room'', JStr u)]) 200,
     enqueue cid ''matched'' [(''room'', JStr u), (''role'', JStr ''callee''), (''peer'', JStr other)]
       (enqueue other ''matched'' [(''room'', JStr u), (''role'', JStr ''caller''), (''peer'', JStr cid)]
          (pair_state u other cid (left_room cid s))))"
  using assms
  by (simp add: find_partner_def Let_def truthy_def left_room_def pair_state_def)

lemma find_partner_wait:
  assumes "cid \<noteq> []" "waiting_id (left_room cid s) = None \<or> waiting_id (left_room cid s) = Some []
     \<or> waiting_id (left_room cid s) = Some cid"
  shows "find_partner u (Some cid) s =
    (Json (JObj [(''status'', JStr ''waiting'')]) 200,
     enqueue cid ''status'' [(''msg'', JStr searching_msg)] ((left_room cid s)\<lparr>waiting_id := Some cid\<rparr>))"
  using assms
  by (auto simp add: find_partner_def Let_def truthy_def left_room_def)

lemma left_room_consistent: "consistent s \<Longrightarrow> consistent (left_room cid s)"
  by (simp add: left_room_def leave_consistent)

lemma left_room_no_room: 
  assumes "consistent s" shows "room_of (left_room cid s) cid = None"
proof (cases "room_of s cid")
  case None
  then show ?thesis by (simp add: left_room_def)
next
  case (Some rid)
  have "rid \<noteq> []" using assms Some by (auto simp: consistent_def index_ok_def)
  then show ?thesis using Some by (simp add: left_room_def leave_room_fields(2) [OF Some])
qed

lemma leave_rooms_fresh:
  assumes "rooms s u = None" shows "rooms (leave_current_room cid n s) u = None"
proof (cases "truthy (room_of s cid)")
  case False
  then show ?thesis using assms by (simp add: leave_no_room)
next
  case True
  then obtain rid where r: "room_of s cid = Some rid" "rid \<noteq> []"
    by (cases "room_of s cid") (auto simp: truthy_def)
  show ?thesis
  proof (cases "u = rid")
    case True
    then have "rooms s rid = None" using assms by simp
    then show ?thesis using True by (simp add: leave_room_fields(4) [OF r] Let_def)
  next
    case False
    then show ?thesis using assms by (simp add: leave_room_fields(4) [OF r] Let_def)
  qed
qed

lemma left_room_rooms_fresh:
  assumes "rooms s u = None" shows "rooms (left_room cid s) u = None"
  using assms by (simp add: left_room_def leave_rooms_fresh)

lemma consistent_enqueue: "consistent (enqueue c e d s) = consistent s"
  by (rule consistent_queues) simp_all

lemma consistent_ensure_queue: "consistent (ensure_queue c s) = consistent s"
  by (rule consistent_queues) simp_all

lemma find_partner_consistent:
  assumes c: "consistent s" and u: "u \<noteq> []" "rooms s u = None"
  shows "consistent (snd (find_partner u req_id s))"
proof (cases "truthy req_id")
  case False
  then show ?thesis using c by (simp add: find_partner_def)
next
  case True
  then obtain cid where r: "req_id = Some cid" "cid \<noteq> []"
    by (cases req_id) (auto simp: truthy_def)
  let ?s1 = "left_room cid s"
  have c1: "consistent ?s1" by (rule left_room_consistent [OF c])
  have nr: "room_of ?s1 cid = None" by (rule left_room_no_room [OF c])
  have fr: "rooms ?s1 u = None" by (rule left_room_rooms_fresh [OF u(2)])
  show ?thesis
  proof (cases "\<exists>other. waiting_id ?s1 = Some other \<and> other \<noteq> [] \<and> other \<noteq> cid")
    case True
    then obtain other where o: "waiting_id ?s1 = Some other" "other \<noteq> []" "other \<noteq> cid" by blast
    have "consistent (pair_state u other cid ?s1)"
      by (rule pair_consistent [OF c1 o(1) o(3) r(2) u(1) fr nr])
    then show ?thesis
      by (simp add: r find_partner_match [OF r(2) o] consistent_enqueue)
  next
    case False
    then have w: "waiting_id ?s1 = None \<or> waiting_id ?s1 = Some [] \<or> waiting_id ?s1 = Some cid"
      by (cases "waiting_id ?s1") auto
    have "consistent (?s1\<lparr>waiting_id := Some cid\<rparr>)"
      by (rule consistent_wait [OF c1 r(2) nr])
    then show ?thesis
      by (simp add: r find_partner_wait [OF r(2) w] consistent_enqueue)
  qed
qed

lemma consistent_init: "consistent init_state"
  by (simp add: consistent_def slot_ok_def index_ok_def rooms_ok_def peers_ok_def init_state_def)

lemma consistent_set_queues: "consistent (s\<lparr>message_queues := q\<rparr>) = consistent s"
  by (rule consistent_queues) simp_all

lemma reachable_consistent: "reachable s \<Longrightarrow> consistent s"
proof (induction rule: reachable.induct)
  case r_init
  show ?case by (rule consistent_init)
next
  case (r_register s u)
  then show ?case by (simp add: register_def consistent_ensure_queue)
next
  case (r_find s u req_id)
  then show ?case by (simp add: find_partner_consistent)
next
  case (r_signal s req_id req_to req_type payload)
  then show ?case by (simp add: signal_def consistent_enqueue)
next
  case (r_next s u req_id)
  show ?case
  proof (cases "truthy req_id")
    case True
    have "consistent (leave_current_room (the req_id) True s)"
      by (rule leave_consistent [OF r_next.IH])
    moreover have "rooms (leave_current_room (the req_id) True s) u = None"
      by (rule leave_rooms_fresh [OF r_next.hyps(3)])
    ultimately show ?thesis using True r_next.hyps
      by (simp add: next_partner_def find_partner_consistent)
  next
    case False
    then show ?thesis using r_next.IH by (simp add: next_partner_def)
  qed
next
  case (r_leave s req_id)
  then show ?case
    by (simp add: leave_def Let_def leave_consistent consistent_enqueue)
next
  case (r_events s req_id)
  then show ?case by (simp add: events_def consistent_ensure_queue)
next
  case (r_get s cid x s')
  then show ?case
    by (auto simp: q_get_def consistent_set_queues split: option.splits list.splits)
next
  case (r_test_pull s enabled req_id)
  then show ?case
    by (simp add: test_pull_def Let_def consistent_set_queues consistent_ensure_queue)
qed

section \<open>The sample run\<close>

lemma ex_registered_eq:
  "ex_registered = \<lparr>waiting_id = None, rooms = Map.empty, peer_of = Map.empty,
     room_of = Map.empty, message_queues = [''A'' \<mapsto> [], ''B'' \<mapsto> []]\<rparr>"
  by (simp add: ex_registered_def register_def ensure_queue_def init_state_def)

lemma ex_waiting_eq:
  "ex_waiting = \<lparr>waiting_id = Some ''A'', rooms = Map.empty, peer_of = Map.empty,
     room_of = Map.empty,
     message_queues = [''A'' \<mapsto> [\<lparr>event = ''status'', data = [(''msg'', JStr searching_msg)]\<rparr>],
        ''B'' \<mapsto> []]\<rparr>"
  by (simp add: ex_waiting_def ex_registered_eq find_partner_def truthy_def Let_def enqueue_def fun_eq_iff)

lemma ex_paired_eq:
  "ex_paired = \<lparr>waiting_id = None,
     rooms = [''r1'' \<mapsto> [(''a'', ''A''), (''b'', ''B'')]],
     peer_of = [''A'' \<mapsto> ''B'', ''B'' \<mapsto> ''A''],
     room_of = [''A'' \<mapsto> ''r1'', ''B'' \<mapsto> ''r1''],
     message_queues =
       [''A'' \<mapsto> [\<lparr>event = ''status'', data = [(''msg'', JStr searching_msg)]\<rparr>,
          \<lparr>event = ''matched'',
             data = [(''room'', JStr ''r1''), (''role'', JStr ''caller''), (''peer'', JStr ''B'')]\<rparr>],
        ''B'' \<mapsto> [\<lparr>event = ''matched'',
             data = [(''room'', JStr ''r1''), (''role'', JStr ''callee''), (''peer'', JStr ''A'')]\<rparr>]]\<rparr>"
  by (simp add: ex_paired_def ex_waiting_eq find_partner_def truthy_def Let_def enqueue_def fun_eq_iff)

lemma reachable_ex_registered: "reachable ex_registered"
  unfolding ex_registered_def by (intro reachable.intros) simp_all

lemma reachable_ex_waiting: "reachable ex_waiting"
  unfolding ex_waiting_def
  by (rule r_find [OF reachable_ex_registered]) (simp_all add: ex_registered_eq)

lemma reachable_ex_paired: "reachable ex_paired"
  unfolding ex_paired_def
  by (rule r_find [OF reachable_ex_waiting]) (simp_all add: ex_waiting_eq)

lemma reachable_ex_left: "reachable ex_left"
  unfolding ex_left_def by (rule r_leave [OF reachable_ex_paired])

lemma ex_left_fields:
  "rooms ex_left ''r1'' = Some [(''b'', ''B'')]"
  "room_of ex_left ''B'' = Some ''r1''"
  "room_of ex_left ''A'' = None"
  "peer_of ex_left ''B'' = None"
  by (simp_all add: ex_left_def ex_paired_eq leave_def leave_current_room_def truthy_def Let_def enqueue_def)

section \<open>Properties of the specification\<close>

text \<open>
  C9. Peer Index symmetry is an invariant: in every reachable state (the states produced by
  Register, FindPartner, NextPartner, Leave, Relay, Subscribe and the consumption of
  events), whenever the Peer Index maps A to B it also maps B to A; a client that is
  unpaired has no Peer Index entry: a client with no Room Index entry has none, and an
  entry from A to B exists only while A and B are the two members of one room that both
  are indexed to.
\<close>
theorem peer_index_symmetric:
  assumes "reachable s"
  shows "(\<forall>a b. peer_of s a = Some b \<longrightarrow> peer_of s b = Some a)
    \<and> (\<forall>a. room_of s a = None \<longrightarrow> peer_of s a = None)
    \<and> (\<forall>a b. peer_of s a = Some b \<longrightarrow>
          (\<exists>r. room_of s a = Some r \<and> room_of s b = Some r \<and>
             (rooms s r = Some [(''a'', a), (''b'', b)] \<or> rooms s r = Some [(''a'', b), (''b'', a)])))"
proof -
  have c: "consistent s" by (rule reachable_consistent [OF assms])
  then have pk: "peers_ok s" and rk: "rooms_ok s" by (simp_all add: consistent_def)
  have 1: "peer_of s b = Some a" if "peer_of s a = Some b" for a b
    by (rule peers_okD(3) [OF pk that])
  have 2: "peer_of s a = None" if "room_of s a = None" for a
    by (rule peer_needs_room(1) [OF pk that])
  have 3: "\<exists>r. room_of s a = Some r \<and> room_of s b = Some r \<and>
      (rooms s r = Some [(''a'', a), (''b'', b)] \<or> rooms s r = Some [(''a'', b), (''b'', a)])"
    if ab: "peer_of s a = Some b" for a b
  proof -
    from peers_okD(4) [OF pk ab] obtain r where r: "room_of s a = Some r"
      "rooms s r = Some [(''a'', a), (''b'', b)] \<or> rooms s r = Some [(''a'', b), (''b'', a)]"
      by blast
    then obtain m where m: "rooms s r = Some m" "b \<in> snd ` set m" by auto
    have "room_of s b = Some r" by (rule rooms_okD(2) [OF rk m])
    then show ?thesis using r by blast
  qed
  show ?thesis using 1 2 3 by blast
qed

theorem peer_index_symmetric_witness:
  "reachable ex_paired \<and> peer_of ex_paired ''A'' = Some ''B'' \<and> peer_of ex_paired ''B'' = Some ''A''
    \<and> room_of ex_paired ''A'' = Some ''r1'' \<and> room_of ex_paired ''B'' = Some ''r1''
    \<and> rooms ex_paired ''r1'' = Some [(''a'', ''A''), (''b'', ''B'')]
    \<and> room_of ex_paired ''C'' = None \<and> peer_of ex_paired ''C'' = None"
  using peer_index_symmetric [OF reachable_ex_paired] reachable_ex_paired
  by (simp add: ex_paired_eq)

text \<open>
  C6. A Relay call with non-empty sender, recipient and type fails with "peer not found"
  (status 404, the UnknownRecipient condition) exactly when the recipient has no queue, and
  then the state is unchanged. Otherwise it answers ok and appends one \<open>signal\<close> event
  holding the sender, the type and the payload as given to the recipient's queue, and
  changes nothing else. The Peer Index plays no part: with any other Peer Index the response
  and the effect are the same.
\<close>
theorem relay_unknown_recipient:
  assumes "cid \<noteq> []" "to \<noteq> []" "typ \<noteq> []"
  shows "(fst (signal (Some cid) (Some to) (Some typ) payload s)
            = Json (JObj [(''error'', JStr ''peer not found'')]) 404
          \<longleftrightarrow> message_queues s to = None)
    \<and> (message_queues s to = None \<longrightarrow> snd (signal (Some cid) (Some to) (Some typ) payload s) = s)
    \<and> (\<forall>q. message_queues s to = Some q \<longrightarrow>
          signal (Some cid) (Some to) (Some typ) payload s =
            (ok_response,
             s\<lparr>message_queues := (message_queues s)(to \<mapsto> q @
                [\<lparr>event = ''signal'',
                  data = [(''from'', JStr cid), (''type'', JStr typ), (''payload'', payload)]\<rparr>])\<rparr>))
    \<and> (\<forall>p. signal (Some cid) (Some to) (Some typ) payload (s\<lparr>peer_of := p\<rparr>) =
          (fst (signal (Some cid) (Some to) (Some typ) payload s),
           (snd (signal (Some cid) (Some to) (Some typ) payload s))\<lparr>peer_of := p\<rparr>))"
  using assms
  by (auto simp: signal_def truthy_def enqueue_def ok_response_def split: option.splits)

theorem relay_unknown_recipient_witness:
  "fst (signal (Some ''A'') (Some ''C'') (Some ''offer'') (JObj [(''sdp'', JStr ''x'')]) ex_paired)
      = Json (JObj [(''error'', JStr ''peer not found'')]) 404
   \<and> snd (signal (Some ''A'') (Some ''C'') (Some ''offer'') (JObj [(''sdp'', JStr ''x'')]) ex_paired)
      = ex_paired
   \<and> fst (signal (Some ''A'') (Some ''B'') (Some ''offer'') (JObj [(''sdp'', JStr ''x'')]) ex_paired)
      = ok_response
   \<and> message_queues
        (snd (signal (Some ''A'') (Some ''B'') (Some ''offer'') (JObj [(''sdp'', JStr ''x'')]) ex_paired))
        ''B''
      = Some [\<lparr>event = ''matched'',
               data = [(''room'', JStr ''r1''), (''role'', JStr ''callee''), (''peer'', JStr ''A'')]\<rparr>,
              \<lparr>event = ''signal'',
               data = [(''from'', JStr ''A''), (''type'', JStr ''offer''),
                       (''payload'', JObj [(''sdp'', JStr ''x'')])]\<rparr>]"
proof -
  let ?p = "JObj [(''sdp'', JStr ''x'')]"
  have qc: "message_queues ex_paired ''C'' = None"
    and qb: "message_queues ex_paired ''B'' = Some [\<lparr>event = ''matched'',
               data = [(''room'', JStr ''r1''), (''role'', JStr ''callee''), (''peer'', JStr ''A'')]\<rparr>]"
    by (simp_all add: ex_paired_eq)
  have ne: "''A'' \<noteq> []" "''B'' \<noteq> []" "''C'' \<noteq> []" "''offer'' \<noteq> []" by simp_all
  note c = relay_unknown_recipient [OF ne(1) ne(3) ne(4), of ?p ex_paired]
  note b = relay_unknown_recipient [OF ne(1) ne(2) ne(4), of ?p ex_paired]
  have c1: "fst (signal (Some ''A'') (Some ''C'') (Some ''offer'') ?p ex_paired)
      = Json (JObj [(''error'', JStr ''peer not found'')]) 404"
    using c [THEN conjunct1] qc by (simp only:)
  have c2: "snd (signal (Some ''A'') (Some ''C'') (Some ''offer'') ?p ex_paired) = ex_paired"
    using c [THEN conjunct2, THEN conjunct1] qc by (simp only:)
  have b3: "signal (Some ''A'') (Some ''B'') (Some ''offer'') ?p ex_paired =
     (ok_response, ex_paired\<lparr>message_queues := (message_queues ex_paired)(''B'' \<mapsto>
        [\<lparr>event = ''matched'',
               data = [(''room'', JStr ''r1''), (''role'', JStr ''callee''), (''peer'', JStr ''A'')]\<rparr>] @
        [\<lparr>event = ''signal'',
               data = [(''from'', JStr ''A''), (''type'', JStr ''offer''), (''payload'', ?p)]\<rparr>])\<rparr>)"
    using b [THEN conjunct2, THEN conjunct2, THEN conjunct1] qb by blast
  show ?thesis by (simp add: c1 c2 b3)
qed

lemma set_queue_same:
  assumes "message_queues s b = Some q"
  shows "s\<lparr>message_queues := (message_queues s)(b \<mapsto> q)\<rparr> = s"
proof -
  have "(message_queues s)(b \<mapsto> q) = message_queues s"
    using assms by (rule map_upd_triv)
  then have "s\<lparr>message_queues := (message_queues s)(b \<mapsto> q)\<rparr> = s\<lparr>message_queues := message_queues s\<rparr>"
    by (rule arg_cong)
  also have "\<dots> = s" by simp
  finally show ?thesis .
qed

text \<open>
  C8. Relay delivery keeps the order: N Relay calls from A to B (non-empty ids and types, B
  having a queue) all succeed, and B's queue is then its former content followed by the N
  \<open>signal\<close> events in the order of the calls.
\<close>
theorem relay_order_preserved:
  assumes "a \<noteq> []" "b \<noteq> []" "\<forall>m \<in> set ms. fst m \<noteq> []" "message_queues s b = Some q"
  shows "relay_all a b ms s =
    (replicate (length ms) ok_response,
     s\<lparr>message_queues := (message_queues s)(b \<mapsto> q @ map (signal_item a) ms)\<rparr>)"
  using assms
proof (induction ms arbitrary: s q)
  case Nil
  show ?case
    by (simp only: relay_all.simps list.map append_Nil2 list.size replicate_0
        set_queue_same [OF Nil.prems(4)])
next
  case (Cons m ms)
  obtain t p where m: "m = (t, p)" by (cases m)
  define s1 where "s1 = s\<lparr>message_queues := (message_queues s)(b \<mapsto> q @ [signal_item a m])\<rparr>"
  have t: "t \<noteq> []" using Cons.prems(3) m by simp
  have sg: "signal (Some a) (Some b) (Some t) p s = (ok_response, s1)"
    using Cons.prems(1,2,4) t m
    by (simp add: signal_def truthy_def enqueue_def signal_item_def s1_def)
  have q1: "message_queues s1 b = Some (q @ [signal_item a m])" by (simp add: s1_def)
  have rest: "\<forall>m \<in> set ms. fst m \<noteq> []" using Cons.prems(3) by simp
  have ih: "relay_all a b ms s1 =
    (replicate (length ms) ok_response,
     s1\<lparr>message_queues := (message_queues s1)(b \<mapsto> (q @ [signal_item a m]) @ map (signal_item a) ms)\<rparr>)"
    by (rule Cons.IH [OF Cons.prems(1,2) rest q1])
  have fin: "s1\<lparr>message_queues := (message_queues s1)(b \<mapsto> (q @ [signal_item a m]) @ map (signal_item a) ms)\<rparr>
    = s\<lparr>message_queues := (message_queues s)(b \<mapsto> q @ map (signal_item a) (m # ms))\<rparr>"
    by (simp add: s1_def)
  have "relay_all a b (m # ms) s = (ok_response # replicate (length ms) ok_response,
     s1\<lparr>message_queues := (message_queues s1)(b \<mapsto> (q @ [signal_item a m]) @ map (signal_item a) ms)\<rparr>)"
    by (simp only: m relay_all.simps sg ih Let_def prod.case)
  then show ?case by (simp only: fin list.size replicate_Suc add_Suc_right add_0_right One_nat_def replicate.simps)
qed

theorem relay_order_preserved_witness:
  "relay_all ''A'' ''B'' [(''offer'', JStr ''x''), (''candidate'', JStr ''y''), (''candidate'', JStr ''z'')]
     ex_registered =
   ([ok_response, ok_response, ok_response],
    ex_registered\<lparr>message_queues := (message_queues ex_registered)(''B'' \<mapsto>
      [\<lparr>event = ''signal'', data = [(''from'', JStr ''A''), (''type'', JStr ''offer''), (''payload'', JStr ''x'')]\<rparr>,
       \<lparr>event = ''signal'', data = [(''from'', JStr ''A''), (''type'', JStr ''candidate''), (''payload'', JStr ''y'')]\<rparr>,
       \<lparr>event = ''signal'', data = [(''from'', JStr ''A''), (''type'', JStr ''candidate''), (''payload'', JStr ''z'')]\<rparr>])\<rparr>)"
  using relay_order_preserved [of "''A''" "''B''"
      "[(''offer'', JStr ''x''), (''candidate'', JStr ''y''), (''candidate'', JStr ''z'')]"
      ex_registered "[]"]
    apply (simp only: list.set ball_simps fst_conv)
  apply (simp add: ex_registered_eq signal_item_def)
  done

text \<open>
  C10. For every (non-empty) identity, NextPartner gives the same response and the same
  state, hence the same queued events for the client and for its former peer, as leaving the
  room with the peer notified followed by FindPartner.
\<close>
theorem next_partner_is_leave_then_find:
  assumes "cid \<noteq> []"
  shows "next_partner u (Some cid) s = next_partner_spec u cid s"
  using assms by (simp add: next_partner_def next_partner_spec_def truthy_def)

theorem next_partner_is_leave_then_find_witness:
  "next_partner ''r2'' (Some ''A'') ex_paired = next_partner_spec ''r2'' ''A'' ex_paired
    \<and> fst (next_partner_spec ''r2'' ''A'' ex_paired) = Json (JObj [(''status'', JStr ''waiting'')]) 200
    \<and> waiting_id (snd (next_partner_spec ''r2'' ''A'' ex_paired)) = Some ''A''
    \<and> message_queues (snd (next_partner_spec ''r2'' ''A'' ex_paired)) ''B''
        = Some [\<lparr>event = ''matched'',
                 data = [(''room'', JStr ''r1''), (''role'', JStr ''callee''), (''peer'', JStr ''A'')]\<rparr>,
                \<lparr>event = ''peer-left'', data = []\<rparr>]"
proof -
  have ne: "''A'' \<noteq> []" by simp
  have ev: "fst (next_partner_spec ''r2'' ''A'' ex_paired) = Json (JObj [(''status'', JStr ''waiting'')]) 200
    \<and> waiting_id (snd (next_partner_spec ''r2'' ''A'' ex_paired)) = Some ''A''
    \<and> message_queues (snd (next_partner_spec ''r2'' ''A'' ex_paired)) ''B''
        = Some [\<lparr>event = ''matched'',
                 data = [(''room'', JStr ''r1''), (''role'', JStr ''callee''), (''peer'', JStr ''A'')]\<rparr>,
                \<lparr>event = ''peer-left'', data = []\<rparr>]"
    by (simp add: next_partner_spec_def ex_paired_eq find_partner_def leave_current_room_def
        truthy_def Let_def enqueue_def)
  show ?thesis using next_partner_is_leave_then_find [OF ne, of "''r2''" ex_paired] ev by simp
qed

lemma left_room_id: "room_of s cid = None \<Longrightarrow> left_room cid s = s"
  by (simp add: left_room_def)

lemma enqueue_queue:
  "message_queues (enqueue c e d s) x =
     (if x = c then map_option (\<lambda>q. q @ [\<lparr>event = e, data = d\<rparr>]) (message_queues s c)
      else message_queues s x)"
  by (simp add: enqueue_def split: option.splits)

text \<open>
  C3. Two distinct registered clients A and B (non-empty ids, each with a queue), the
  waiting slot empty and both in no room: A's FindPartner answers waiting, and B's
  FindPartner after it answers matched with the room id. Afterwards the waiting slot is
  empty, one new room under that id holds A as "a" (the caller) and B as "b" (the callee),
  the Peer Index maps A to B and B to A, the Room Index maps both to the room, and a
  \<open>matched\<close> event with the room id, the role and the peer is at the end of the queue of
  each (A: caller with peer B, after its \<open>status\<close> event; B: callee with peer A).
\<close>
theorem pairing_two_clients:
  assumes ids: "a \<noteq> []" "b \<noteq> []" "a \<noteq> b"
    and reg: "message_queues s a = Some qa" "message_queues s b = Some qb"
    and free: "waiting_id s = None" "room_of s a = None" "room_of s b = None"
    and fa: "find_partner u0 (Some a) s = (r1, s1)"
    and fb: "find_partner u (Some b) s1 = (r2, s2)"
  shows "r1 = Json (JObj [(''status'', JStr ''waiting'')]) 200
    \<and> r2 = Json (JObj [(''status'', JStr ''matched''), (''room'', JStr u)]) 200
    \<and> waiting_id s2 = None
    \<and> rooms s2 = (rooms s)(u \<mapsto> [(''a'', a), (''b'', b)])
    \<and> peer_of s2 = (peer_of s)(a \<mapsto> b, b \<mapsto> a)
    \<and> room_of s2 = (room_of s)(a \<mapsto> u, b \<mapsto> u)
    \<and> message_queues s2 = (message_queues s)
          (a \<mapsto> qa @ [\<lparr>event = ''status'', data = [(''msg'', JStr searching_msg)]\<rparr>,
                      \<lparr>event = ''matched'',
                        data = [(''room'', JStr u), (''role'', JStr ''caller''), (''peer'', JStr b)]\<rparr>],
           b \<mapsto> qb @ [\<lparr>event = ''matched'',
                        data = [(''room'', JStr u), (''role'', JStr ''callee''), (''peer'', JStr a)]\<rparr>])"
proof -
  let ?w = "enqueue a ''status'' [(''msg'', JStr searching_msg)] (s\<lparr>waiting_id := Some a\<rparr>)"
  have wa: "waiting_id (left_room a s) = None \<or> waiting_id (left_room a s) = Some []
     \<or> waiting_id (left_room a s) = Some a"
    using free by (simp add: left_room_id)
  have 1: "r1 = Json (JObj [(''status'', JStr ''waiting'')]) 200" "s1 = ?w"
    using fa find_partner_wait [OF ids(1) wa, of u0] free(2) by (simp_all add: left_room_id)
  have nb: "room_of s1 b = None" using free(3) by (simp add: 1)
  have "waiting_id s1 = Some a" by (simp add: 1)
  then have wb: "waiting_id (left_room b s1) = Some a" by (simp only: left_room_id [OF nb])
  have 2: "find_partner u (Some b) s1 =
    (Json (JObj [(''status'', JStr ''matched''), (''room'', JStr u)]) 200,
     enqueue b ''matched'' [(''room'', JStr u), (''role'', JStr ''callee''), (''peer'', JStr a)]
       (enqueue a ''matched'' [(''room'', JStr u), (''role'', JStr ''caller''), (''peer'', JStr b)]
          (pair_state u a b s1)))"
    using find_partner_match [OF ids(2) wb ids(1) ids(3), of u] by (simp add: left_room_id [OF nb])
  have r2: "r2 = Json (JObj [(''status'', JStr ''matched''), (''room'', JStr u)]) 200"
    and s2: "s2 = enqueue b ''matched'' [(''room'', JStr u), (''role'', JStr ''callee''), (''peer'', JStr a)]
       (enqueue a ''matched'' [(''room'', JStr u), (''role'', JStr ''caller''), (''peer'', JStr b)]
          (pair_state u a b s1))"
    using fb 2 by simp_all
  have f1: "waiting_id s2 = None" by (simp add: s2 pair_state_def)
  have f2: "rooms s2 = (rooms s)(u \<mapsto> [(''a'', a), (''b'', b)])" by (simp add: s2 pair_state_def 1)
  have f3: "peer_of s2 = (peer_of s)(a \<mapsto> b, b \<mapsto> a)" by (simp add: s2 pair_state_def 1)
  have f4: "room_of s2 = (room_of s)(a \<mapsto> u, b \<mapsto> u)" by (simp add: s2 pair_state_def 1)
  have f5: "message_queues s2 x = ((message_queues s)
          (a \<mapsto> qa @ [\<lparr>event = ''status'', data = [(''msg'', JStr searching_msg)]\<rparr>,
                      \<lparr>event = ''matched'',
                        data = [(''room'', JStr u), (''role'', JStr ''caller''), (''peer'', JStr b)]\<rparr>],
           b \<mapsto> qb @ [\<lparr>event = ''matched'',
                        data = [(''room'', JStr u), (''role'', JStr ''callee''), (''peer'', JStr a)]\<rparr>])) x"
    for x
    using ids(3) reg by (simp add: s2 1 enqueue_queue pair_state_def)
  show ?thesis using 1(1) r2 f1 f2 f3 f4 f5 by (simp only: fun_eq_iff simp_thms)
qed


theorem pairing_two_clients_witness:
  "fst (find_partner ''r0'' (Some ''A'') ex_registered) = Json (JObj [(''status'', JStr ''waiting'')]) 200
    \<and> fst (find_partner ''r1'' (Some ''B'') ex_waiting)
        = Json (JObj [(''status'', JStr ''matched''), (''room'', JStr ''r1'')]) 200
    \<and> waiting_id ex_paired = None
    \<and> rooms ex_paired = (rooms ex_registered)(''r1'' \<mapsto> [(''a'', ''A''), (''b'', ''B'')])
    \<and> peer_of ex_paired = (peer_of ex_registered)(''A'' \<mapsto> ''B'', ''B'' \<mapsto> ''A'')
    \<and> room_of ex_paired = (room_of ex_registered)(''A'' \<mapsto> ''r1'', ''B'' \<mapsto> ''r1'')
    \<and> message_queues ex_paired = (message_queues ex_registered)
          (''A'' \<mapsto> [] @ [\<lparr>event = ''status'', data = [(''msg'', JStr searching_msg)]\<rparr>,
                      \<lparr>event = ''matched'',
                        data = [(''room'', JStr ''r1''), (''role'', JStr ''caller''), (''peer'', JStr ''B'')]\<rparr>],
           ''B'' \<mapsto> [] @ [\<lparr>event = ''matched'',
                        data = [(''room'', JStr ''r1''), (''role'', JStr ''callee''), (''peer'', JStr ''A'')]\<rparr>])"
proof -
  have ids: "''A'' \<noteq> []" "''B'' \<noteq> []" "''A'' \<noteq> ''B''" by simp_all
  have reg: "message_queues ex_registered ''A'' = Some []" "message_queues ex_registered ''B'' = Some []"
    and free: "waiting_id ex_registered = None" "room_of ex_registered ''A'' = None"
      "room_of ex_registered ''B'' = None"
    by (simp_all add: ex_registered_eq)
  have same: "find_partner ''r0'' (Some ''A'') ex_registered = find_partner ''r1'' (Some ''A'') ex_registered"
    by (simp add: ex_registered_eq find_partner_def truthy_def Let_def)
  have fa: "find_partner ''r0'' (Some ''A'') ex_registered =
      (fst (find_partner ''r0'' (Some ''A'') ex_registered), ex_waiting)"
    by (simp add: same ex_waiting_def)
  have fb: "find_partner ''r1'' (Some ''B'') ex_waiting =
      (fst (find_partner ''r1'' (Some ''B'') ex_waiting), ex_paired)"
    by (simp add: ex_paired_def)
  show ?thesis by (rule pairing_two_clients [OF ids reg free fa fb])
qed

lemma set_waiting_same:
  assumes "waiting_id s = Some cid"
  shows "s\<lparr>waiting_id := Some cid\<rparr> = s"
proof -
  have "s\<lparr>waiting_id := Some cid\<rparr> = s\<lparr>waiting_id := waiting_id s\<rparr>"
    by (simp only: assms)
  also have "\<dots> = s" by simp
  finally show ?thesis .
qed

text \<open>
  C7. No self-pairing: in a reachable state whose waiting slot holds a client, FindPartner
  by that client answers waiting and changes nothing but the client's queue: the client
  stays in the slot, no room is created, the Peer Index and Room Index are as before (the
  client has no entry in either), and one \<open>status\<close> event is appended to the client's
  queue when it has one.
\<close>
theorem no_self_pairing:
  assumes "reachable s" "waiting_id s = Some cid"
  shows "find_partner u (Some cid) s =
      (Json (JObj [(''status'', JStr ''waiting'')]) 200,
       enqueue cid ''status'' [(''msg'', JStr searching_msg)] s)
    \<and> waiting_id (snd (find_partner u (Some cid) s)) = Some cid
    \<and> rooms (snd (find_partner u (Some cid) s)) = rooms s
    \<and> peer_of (snd (find_partner u (Some cid) s)) = peer_of s
    \<and> room_of (snd (find_partner u (Some cid) s)) = room_of s
    \<and> peer_of s cid = None \<and> room_of s cid = None
    \<and> (\<forall>q. message_queues s cid = Some q \<longrightarrow>
          message_queues (snd (find_partner u (Some cid) s)) cid =
            Some (q @ [\<lparr>event = ''status'', data = [(''msg'', JStr searching_msg)]\<rparr>]))"
proof -
  have c: "consistent s" by (rule reachable_consistent [OF assms(1)])
  then have sk: "slot_ok s" and pk: "peers_ok s" by (simp_all add: consistent_def)
  note w = slot_okD [OF sk assms(2)]
  have p: "peer_of s cid = None" by (rule peer_needs_room(1) [OF pk w(2)])
  have l: "left_room cid s = s" by (rule left_room_id [OF w(2)])
  have wa: "waiting_id (left_room cid s) = None \<or> waiting_id (left_room cid s) = Some []
     \<or> waiting_id (left_room cid s) = Some cid"
    by (simp only: l assms(2) simp_thms)
  have f: "find_partner u (Some cid) s =
      (Json (JObj [(''status'', JStr ''waiting'')]) 200,
       enqueue cid ''status'' [(''msg'', JStr searching_msg)] s)"
    using find_partner_wait [OF w(1) wa, of u] by (simp only: l set_waiting_same [OF assms(2)])
  show ?thesis using p w(2) assms(2) by (simp add: f enqueue_queue)
qed

theorem no_self_pairing_witness:
  "reachable ex_waiting \<and> waiting_id ex_waiting = Some ''A''
    \<and> fst (find_partner ''r2'' (Some ''A'') ex_waiting) = Json (JObj [(''status'', JStr ''waiting'')]) 200
    \<and> waiting_id (snd (find_partner ''r2'' (Some ''A'') ex_waiting)) = Some ''A''
    \<and> rooms (snd (find_partner ''r2'' (Some ''A'') ex_waiting)) = rooms ex_waiting
    \<and> message_queues (snd (find_partner ''r2'' (Some ''A'') ex_waiting)) ''A'' =
        Some [\<lparr>event = ''status'', data = [(''msg'', JStr searching_msg)]\<rparr>,
              \<lparr>event = ''status'', data = [(''msg'', JStr searching_msg)]\<rparr>]"
proof -
  have w: "waiting_id ex_waiting = Some ''A''"
    and q: "message_queues ex_waiting ''A'' = Some [\<lparr>event = ''status'', data = [(''msg'', JStr searching_msg)]\<rparr>]"
    by (simp_all add: ex_waiting_eq)
  note t = no_self_pairing [OF reachable_ex_waiting w, of "''r2''"]
  have 1: "fst (find_partner ''r2'' (Some ''A'') ex_waiting) = Json (JObj [(''status'', JStr ''waiting'')]) 200"
    using t by simp
  have 2: "message_queues (snd (find_partner ''r2'' (Some ''A'') ex_waiting)) ''A'' =
        Some ([\<lparr>event = ''status'', data = [(''msg'', JStr searching_msg)]\<rparr>] @
              [\<lparr>event = ''status'', data = [(''msg'', JStr searching_msg)]\<rparr>])"
    using t q by blast
  show ?thesis using t reachable_ex_waiting w 1 2 by simp
qed

text \<open>
  C2, as the code has it. FindPartner by a non-empty identity that has no queue (never
  registered) does not fail: the identity is paired with the waiting client (answer
  matched) when another client waits, and is put in the waiting slot (answer waiting)
  otherwise; no queue is created for it, so the event addressed to it is dropped.
  Subscribe by such an identity does not fail either: it creates an empty queue for it and
  returns its stream.
\<close>
theorem unregistered_identity_accepted:
  assumes "cid \<noteq> []" "message_queues s cid = None"
  shows "(if \<exists>other. waiting_id s = Some other \<and> other \<noteq> [] \<and> other \<noteq> cid
          then fst (find_partner u (Some cid) s)
                 = Json (JObj [(''status'', JStr ''matched''), (''room'', JStr u)]) 200
               \<and> peer_of (snd (find_partner u (Some cid) s)) cid = waiting_id s
               \<and> room_of (snd (find_partner u (Some cid) s)) cid = Some u
          else fst (find_partner u (Some cid) s) = Json (JObj [(''status'', JStr ''waiting'')]) 200
               \<and> waiting_id (snd (find_partner u (Some cid) s)) = Some cid)
    \<and> message_queues (snd (find_partner u (Some cid) s)) cid = None
    \<and> events (Some cid) s = (EventStream cid, s\<lparr>message_queues := (message_queues s)(cid \<mapsto> [])\<rparr>)"
proof -
  have wl: "waiting_id (left_room cid s) = Some other \<longleftrightarrow> waiting_id s = Some other"
    if "other \<noteq> cid" for other
  proof (cases "room_of s cid")
    case None
    then show ?thesis by (simp add: left_room_id)
  next
    case (Some rid)
    show ?thesis
    proof (cases "rid = []")
      case True
      then show ?thesis using Some that by (auto simp: left_room_def leave_no_room truthy_def)
    next
      case False
      then show ?thesis using Some by (simp add: left_room_def leave_room_fields(1) [OF Some False])
    qed
  qed
  have ql: "message_queues (left_room cid s) cid = None"
  proof (cases "room_of s cid")
    case None
    then show ?thesis using assms(2) by (simp add: left_room_id)
  next
    case (Some rid)
    show ?thesis
    proof (cases "rid = []")
      case True
      then show ?thesis using Some assms(2) by (simp add: left_room_def leave_no_room truthy_def)
    next
      case False
      then show ?thesis using Some assms(2)
        by (simp add: left_room_def leave_room_fields(5) [OF Some False] enqueue_queue)
    qed
  qed
  have ev: "events (Some cid) s = (EventStream cid, s\<lparr>message_queues := (message_queues s)(cid \<mapsto> [])\<rparr>)"
    using assms by (simp add: events_def truthy_def ensure_queue_def)
  show ?thesis
  proof (cases "\<exists>other. waiting_id s = Some other \<and> other \<noteq> [] \<and> other \<noteq> cid")
    case True
    then obtain other where o: "waiting_id s = Some other" "other \<noteq> []" "other \<noteq> cid" by blast
    have wo: "waiting_id (left_room cid s) = Some other" using wl [OF o(3)] o(1) by simp
    note m = find_partner_match [OF assms(1) wo o(2) o(3), of u]
    have "message_queues (snd (find_partner u (Some cid) s)) cid = None"
      using ql o(3) by (simp add: m enqueue_queue pair_state_def)
    moreover have "peer_of (snd (find_partner u (Some cid) s)) cid = waiting_id s"
      "room_of (snd (find_partner u (Some cid) s)) cid = Some u"
      by (simp_all add: m pair_state_def o(1))
    moreover have "fst (find_partner u (Some cid) s)
        = Json (JObj [(''status'', JStr ''matched''), (''room'', JStr u)]) 200"
      by (simp add: m)
    ultimately show ?thesis using True ev by simp
  next
    case False
    have wa: "waiting_id (left_room cid s) = None \<or> waiting_id (left_room cid s) = Some []
       \<or> waiting_id (left_room cid s) = Some cid"
    proof (cases "waiting_id (left_room cid s)")
      case (Some x)
      show ?thesis
      proof (cases "x = cid \<or> x = []")
        case True
        then show ?thesis using Some by auto
      next
        case nx: False
        then have "waiting_id s = Some x" using wl [of x] Some by simp
        then show ?thesis using False nx by simp
      qed
    qed simp
    note m = find_partner_wait [OF assms(1) wa, of u]
    have "message_queues (snd (find_partner u (Some cid) s)) cid = None"
      using ql by (simp add: m enqueue_queue)
    moreover have "waiting_id (snd (find_partner u (Some cid) s)) = Some cid"
      "fst (find_partner u (Some cid) s) = Json (JObj [(''status'', JStr ''waiting'')]) 200"
      by (simp_all add: m)
    ultimately show ?thesis using False ev by simp
  qed
qed

text \<open>
  C2 as stated fails: on the initial state, where nobody is registered, FindPartner by X
  answers waiting and puts X in the waiting slot, and Subscribe by X creates a queue.
\<close>

theorem unregistered_identity_counterexample:
  "message_queues init_state ''X'' = None
    \<and> fst (find_partner ''r1'' (Some ''X'') init_state) = Json (JObj [(''status'', JStr ''waiting'')]) 200
    \<and> waiting_id (snd (find_partner ''r1'' (Some ''X'') init_state)) = Some ''X''
    \<and> snd (find_partner ''r1'' (Some ''X'') init_state) \<noteq> init_state
    \<and> fst (events (Some ''X'') init_state) = EventStream ''X''
    \<and> message_queues (snd (events (Some ''X'') init_state)) ''X'' = Some []"
  by (simp add: init_state_def find_partner_def events_def truthy_def Let_def enqueue_def ensure_queue_def)

theorem unregistered_identity_accepted_witness:
  "fst (find_partner ''r1'' (Some ''X'') init_state) = Json (JObj [(''status'', JStr ''waiting'')]) 200
    \<and> waiting_id (snd (find_partner ''r1'' (Some ''X'') init_state)) = Some ''X''
    \<and> message_queues (snd (find_partner ''r1'' (Some ''X'') init_state)) ''X'' = None
    \<and> events (Some ''X'') init_state =
        (EventStream ''X'', init_state\<lparr>message_queues := (message_queues init_state)(''X'' \<mapsto> [])\<rparr>)
    \<and> fst (find_partner ''r1'' (Some ''X'') ex_waiting)
        = Json (JObj [(''status'', JStr ''matched''), (''room'', JStr ''r1'')]) 200
    \<and> peer_of (snd (find_partner ''r1'' (Some ''X'') ex_waiting)) ''X'' = Some ''A''
    \<and> message_queues (snd (find_partner ''r1'' (Some ''X'') ex_waiting)) ''X'' = None"
proof -
  have a: "''X'' \<noteq> []" "message_queues init_state ''X'' = None" "waiting_id init_state = None"
    by (simp_all add: init_state_def)
  have b: "message_queues ex_waiting ''X'' = None" "waiting_id ex_waiting = Some ''A''"
    by (simp_all add: ex_waiting_eq)
  show ?thesis
    using unregistered_identity_accepted [OF a(1,2), of "''r1''"]
      unregistered_identity_accepted [OF a(1) b(1), of "''r1''"] a(3) b(2)
    by simp
qed

lemma leave_room_of_self: "room_of (leave_current_room cid n s) cid = None"
proof (cases "truthy (room_of s cid)")
  case False
  then show ?thesis by (simp add: leave_no_room)
next
  case True
  then obtain rid where r: "room_of s cid = Some rid" "rid \<noteq> []"
    by (cases "room_of s cid") (auto simp: truthy_def)
  show ?thesis by (simp add: leave_room_fields(2) [OF r])
qed

lemma leave_slot_not_self:
  assumes "consistent s"
  shows "waiting_id (leave_current_room cid n s) \<noteq> Some cid"
proof (cases "room_of s cid")
  case None
  then show ?thesis by (simp add: leave_no_room_state)
next
  case (Some rid)
  have rid: "rid \<noteq> []" using assms Some by (auto simp: consistent_def index_ok_def)
  have sk: "slot_ok s" using assms by (simp add: consistent_def)
  have "waiting_id s \<noteq> Some cid" using slot_okD(2) [OF sk, of cid] Some by auto
  then show ?thesis by (simp add: leave_room_fields(1) [OF Some rid])
qed

text \<open>
  C4, as the code has it. A second Leave in a row by the same (non-empty) identity, from
  any state, answers ok, leaves the rooms, the Peer Index, the Room Index and the queue of
  every other client unchanged (so no further \<open>peer-left\<close> is sent), and appends one more
  \<open>status\<close> event ("Left the chat.") to the identity's own queue when it has one. In a
  reachable state it leaves the waiting slot unchanged too.
\<close>
theorem leave_twice:
  assumes "cid \<noteq> []"
  shows "fst (leave (Some cid) (snd (leave (Some cid) s))) = ok_response
    \<and> rooms (snd (leave (Some cid) (snd (leave (Some cid) s)))) = rooms (snd (leave (Some cid) s))
    \<and> peer_of (snd (leave (Some cid) (snd (leave (Some cid) s)))) = peer_of (snd (leave (Some cid) s))
    \<and> room_of (snd (leave (Some cid) (snd (leave (Some cid) s)))) = room_of (snd (leave (Some cid) s))
    \<and> (\<forall>c. c \<noteq> cid \<longrightarrow>
          message_queues (snd (leave (Some cid) (snd (leave (Some cid) s)))) c
            = message_queues (snd (leave (Some cid) s)) c)
    \<and> message_queues (snd (leave (Some cid) (snd (leave (Some cid) s)))) cid
        = map_option (\<lambda>q. q @ [\<lparr>event = ''status'', data = [(''msg'', JStr ''Left the chat.'')]\<rparr>])
            (message_queues (snd (leave (Some cid) s)) cid)
    \<and> (reachable s \<longrightarrow>
          waiting_id (snd (leave (Some cid) (snd (leave (Some cid) s))))
            = waiting_id (snd (leave (Some cid) s)))"
proof -
  define s1 where "s1 = snd (leave (Some cid) s)"
  have s1: "s1 = enqueue cid ''status'' [(''msg'', JStr ''Left the chat.'')] (leave_current_room cid True s)"
    using assms by (simp add: s1_def leave_def truthy_def Let_def)
  have nr: "room_of s1 cid = None" by (simp add: s1 leave_room_of_self)
  define t where "t = leave_current_room cid True s1"
  have t: "t = (if waiting_id s1 = Some cid then s1\<lparr>waiting_id := None\<rparr> else s1)"
    unfolding t_def by (rule leave_no_room_state [OF nr])
  have l2: "leave (Some cid) s1 = (ok_response, enqueue cid ''status'' [(''msg'', JStr ''Left the chat.'')] t)"
    using assms by (simp add: leave_def truthy_def Let_def t_def)
  have w: "waiting_id s1 \<noteq> Some cid" if "reachable s"
    using leave_slot_not_self [OF reachable_consistent [OF that], of cid True] by (simp add: s1)
  have "fst (leave (Some cid) s1) = ok_response
    \<and> rooms (snd (leave (Some cid) s1)) = rooms s1
    \<and> peer_of (snd (leave (Some cid) s1)) = peer_of s1
    \<and> room_of (snd (leave (Some cid) s1)) = room_of s1
    \<and> (\<forall>c. c \<noteq> cid \<longrightarrow> message_queues (snd (leave (Some cid) s1)) c = message_queues s1 c)
    \<and> message_queues (snd (leave (Some cid) s1)) cid
        = map_option (\<lambda>q. q @ [\<lparr>event = ''status'', data = [(''msg'', JStr ''Left the chat.'')]\<rparr>])
            (message_queues s1 cid)
    \<and> (reachable s \<longrightarrow> waiting_id (snd (leave (Some cid) s1)) = waiting_id s1)"
    using w by (simp add: l2 t enqueue_queue)
  then show ?thesis unfolding s1_def .
qed

text \<open>
  C4 as stated fails: after A has registered and left once, a second Leave by A changes
  the state, since A's queue gets a second \<open>status\<close> event.
\<close>

theorem leave_twice_counterexample:
  "reachable ex_registered
    \<and> message_queues (snd (leave (Some ''A'') ex_registered)) ''A''
        = Some [\<lparr>event = ''status'', data = [(''msg'', JStr ''Left the chat.'')]\<rparr>]
    \<and> fst (leave (Some ''A'') (snd (leave (Some ''A'') ex_registered))) = ok_response
    \<and> message_queues (snd (leave (Some ''A'') (snd (leave (Some ''A'') ex_registered)))) ''A''
        = Some [\<lparr>event = ''status'', data = [(''msg'', JStr ''Left the chat.'')]\<rparr>,
                \<lparr>event = ''status'', data = [(''msg'', JStr ''Left the chat.'')]\<rparr>]
    \<and> snd (leave (Some ''A'') (snd (leave (Some ''A'') ex_registered)))
        \<noteq> snd (leave (Some ''A'') ex_registered)"
proof -
  have 1: "message_queues (snd (leave (Some ''A'') ex_registered)) ''A''
        = Some [\<lparr>event = ''status'', data = [(''msg'', JStr ''Left the chat.'')]\<rparr>]"
    by (simp add: ex_registered_eq leave_def leave_current_room_def truthy_def Let_def enqueue_def)
  have 2: "message_queues (snd (leave (Some ''A'') (snd (leave (Some ''A'') ex_registered)))) ''A''
        = Some [\<lparr>event = ''status'', data = [(''msg'', JStr ''Left the chat.'')]\<rparr>,
                \<lparr>event = ''status'', data = [(''msg'', JStr ''Left the chat.'')]\<rparr>]"
    by (simp add: ex_registered_eq leave_def leave_current_room_def truthy_def Let_def enqueue_def)
  have 3: "fst (leave (Some ''A'') (snd (leave (Some ''A'') ex_registered))) = ok_response"
    by (simp add: leave_def truthy_def Let_def)
  have 4: "snd (leave (Some ''A'') (snd (leave (Some ''A'') ex_registered)))
        \<noteq> snd (leave (Some ''A'') ex_registered)"
  proof
    assume "snd (leave (Some ''A'') (snd (leave (Some ''A'') ex_registered)))
        = snd (leave (Some ''A'') ex_registered)"
    then have "message_queues (snd (leave (Some ''A'') (snd (leave (Some ''A'') ex_registered)))) ''A''
        = message_queues (snd (leave (Some ''A'') ex_registered)) ''A''" by (rule arg_cong)
    then show False by (simp only: 1 2) simp
  qed
  show ?thesis using reachable_ex_registered 1 2 3 4 by blast
qed

theorem leave_twice_witness:
  "reachable ex_paired
    \<and> fst (leave (Some ''A'') (snd (leave (Some ''A'') ex_paired))) = ok_response
    \<and> rooms (snd (leave (Some ''A'') (snd (leave (Some ''A'') ex_paired)))) = rooms ex_left
    \<and> message_queues (snd (leave (Some ''A'') (snd (leave (Some ''A'') ex_paired)))) ''B''
        = message_queues ex_left ''B''
    \<and> message_queues ex_left ''B'' = Some [\<lparr>event = ''matched'',
             data = [(''room'', JStr ''r1''), (''role'', JStr ''callee''), (''peer'', JStr ''A'')]\<rparr>,
           \<lparr>event = ''peer-left'', data = []\<rparr>]
    \<and> waiting_id (snd (leave (Some ''A'') (snd (leave (Some ''A'') ex_paired)))) = waiting_id ex_left"
proof -
  have ne: "''A'' \<noteq> []" "''B'' \<noteq> ''A''" by simp_all
  note t = leave_twice [OF ne(1), of ex_paired, folded ex_left_def]
  have q: "message_queues ex_left ''B'' = Some [\<lparr>event = ''matched'',
             data = [(''room'', JStr ''r1''), (''role'', JStr ''callee''), (''peer'', JStr ''A'')]\<rparr>,
           \<lparr>event = ''peer-left'', data = []\<rparr>]"
    by (simp add: ex_left_def ex_paired_eq leave_def leave_current_room_def truthy_def Let_def enqueue_def)
  show ?thesis using t reachable_ex_paired ne(2) q by (simp add: ex_left_def)
qed

lemma leave_paired:
  assumes c: "consistent s" and ab: "peer_of s a = Some b"
  obtains rid k where "room_of s a = Some rid" "room_of s b = Some rid" "rid \<noteq> []"
    "a \<noteq> []" "b \<noteq> []" "a \<noteq> b" "k = ''a'' \<or> k = ''b''"
    "\<And>n. rooms (leave_current_room a n s) = (rooms s)(rid \<mapsto> [(k, b)])"
    "\<And>n. peer_of (leave_current_room a n s) = (peer_of s)(a := None, b := None)"
    "\<And>n. room_of (leave_current_room a n s) = (room_of s)(a := None)"
    "\<And>n. waiting_id (leave_current_room a n s) = waiting_id s"
    "\<And>n. message_queues (leave_current_room a n s) =
       (if n then message_queues (enqueue b ''peer-left'' [] s) else message_queues s)"
proof -
  have pk: "peers_ok s" and rk: "rooms_ok s" and ik: "index_ok s"
    using c by (simp_all add: consistent_def)
  note d = peers_okD [OF pk ab]
  have a: "a \<noteq> []" by (rule peers_okD(1) [OF pk d(3)])
  from d(4) obtain rid where r: "room_of s a = Some rid"
    "rooms s rid = Some [(''a'', a), (''b'', b)] \<or> rooms s rid = Some [(''a'', b), (''b'', a)]"
    by blast
  have rid: "rid \<noteq> []" by (rule index_okD(1) [OF ik r(1)])
  obtain m where m: "rooms s rid = Some m" "b \<in> snd ` set m" using r(2) by auto
  have rb: "room_of s b = Some rid" by (rule rooms_okD(2) [OF rk m])
  note f = leave_room_fields [OF r(1) rid]
  have tr: "truthy (peer_of s a)" "the (peer_of s a) = b" using ab d(1) by (simp_all add: truthy_def)
  have "\<exists>k. (k = ''a'' \<or> k = ''b'') \<and>
    filter (\<lambda>(k, v). v \<noteq> a) (case rooms s rid of None \<Rightarrow> [] | Some m \<Rightarrow> m) = [(k, b)]"
  proof (rule disjE [OF r(2)])
    assume "rooms s rid = Some [(''a'', a), (''b'', b)]"
    then have "filter (\<lambda>(k, v). v \<noteq> a) (case rooms s rid of None \<Rightarrow> [] | Some m \<Rightarrow> m)
       = [(''b'', b)]" using d(2) by simp
    then show ?thesis by blast
  next
    assume "rooms s rid = Some [(''a'', b), (''b'', a)]"
    then have "filter (\<lambda>(k, v). v \<noteq> a) (case rooms s rid of None \<Rightarrow> [] | Some m \<Rightarrow> m)
       = [(''a'', b)]" using d(2) by simp
    then show ?thesis by blast
  qed
  then obtain k where k: "k = ''a'' \<or> k = ''b''"
    "filter (\<lambda>(k, v). v \<noteq> a) (case rooms s rid of None \<Rightarrow> [] | Some m \<Rightarrow> m) = [(k, b)]"
    by blast
  have 1: "rooms (leave_current_room a n s) = (rooms s)(rid \<mapsto> [(k, b)])" for n
    by (simp add: f(4) k(2))
  have 2: "peer_of (leave_current_room a n s) = (peer_of s)(a := None, b := None)" for n
    by (simp add: f(3) tr)
  have 3: "message_queues (leave_current_room a n s) =
       (if n then message_queues (enqueue b ''peer-left'' [] s) else message_queues s)" for n
    by (simp add: f(5) tr)
  show ?thesis by (rule that [OF r(1) rb rid a d(1) d(2) k(1) 1 2 f(2) f(1) 3])
qed

lemma find_partner_frame:
  assumes c: "consistent s" and a: "a \<noteq> []" and z: "room_of (left_room a s) z = Some rz"
    and u: "rooms s u = None"
  shows "peer_of (snd (find_partner u (Some a) s)) z = peer_of (left_room a s) z"
    and "room_of (snd (find_partner u (Some a) s)) z = Some rz"
    and "message_queues (snd (find_partner u (Some a) s)) z = message_queues (left_room a s) z"
    and "rooms (snd (find_partner u (Some a) s)) rz = rooms (left_room a s) rz"
    and "peer_of (snd (find_partner u (Some a) s)) a \<noteq> Some z"
    and "room_of (snd (find_partner u (Some a) s)) a \<noteq> Some rz"
proof -
  let ?t = "left_room a s"
  let ?F = "snd (find_partner u (Some a) s)"
  have ct: "consistent ?t" by (rule left_room_consistent [OF c])
  then have sk: "slot_ok ?t" and ik: "index_ok ?t" and pk: "peers_ok ?t"
    by (simp_all add: consistent_def)
  have na: "room_of ?t a = None" by (rule left_room_no_room [OF c])
  have za: "z \<noteq> a" using z na by auto
  have fr: "rooms ?t u = None" by (rule left_room_rooms_fresh [OF u])
  have ru: "rz \<noteq> u" using index_okD(2) [OF ik z] fr by auto
  have pa: "peer_of ?t a = None" by (rule peer_needs_room(1) [OF pk na])
  have all: "peer_of ?F z = peer_of ?t z \<and> room_of ?F z = Some rz
      \<and> message_queues ?F z = message_queues ?t z \<and> rooms ?F rz = rooms ?t rz
      \<and> peer_of ?F a \<noteq> Some z \<and> room_of ?F a \<noteq> Some rz"
  proof (cases "\<exists>other. waiting_id ?t = Some other \<and> other \<noteq> [] \<and> other \<noteq> a")
    case True
    then obtain other where o: "waiting_id ?t = Some other" "other \<noteq> []" "other \<noteq> a" by blast
    have zo: "z \<noteq> other" using slot_okD(2) [OF sk o(1)] z by auto
    note m = find_partner_match [OF a o, of u]
    show ?thesis using za zo ru z
      by (simp add: m enqueue_queue pair_state_def)
  next
    case False
    then have w: "waiting_id ?t = None \<or> waiting_id ?t = Some [] \<or> waiting_id ?t = Some a"
      by (cases "waiting_id ?t") auto
    note m = find_partner_wait [OF a w, of u]
    show ?thesis using za z na pa
      by (simp add: m enqueue_queue)
  qed
  show "peer_of ?F z = peer_of ?t z" "room_of ?F z = Some rz"
    "message_queues ?F z = message_queues ?t z" "rooms ?F rz = rooms ?t rz"
    "peer_of ?F a \<noteq> Some z" "room_of ?F a \<noteq> Some rz"
    using all by blast+
qed

lemma paired_leave_effects:
  assumes c: "consistent s" and ab: "peer_of s a = Some b" and u: "rooms s u = None"
  shows "\<exists>rid k. room_of s a = Some rid \<and> a \<noteq> [] \<and> a \<noteq> b \<and> (k = ''a'' \<or> k = ''b'')
    \<and> (\<forall>s' \<in> {snd (leave (Some a) s), snd (next_partner u (Some a) s), snd (find_partner u (Some a) s)}.
          rooms s' rid = Some [(k, b)] \<and> room_of s' b = Some rid \<and> peer_of s' b = None
          \<and> peer_of s' a \<noteq> Some b \<and> room_of s' a \<noteq> Some rid)
    \<and> (\<forall>s' \<in> {snd (leave (Some a) s), snd (next_partner u (Some a) s)}.
          message_queues s' b
            = map_option (\<lambda>q. q @ [\<lparr>event = ''peer-left'', data = []\<rparr>]) (message_queues s b))"
proof -
  obtain rid k where f: "room_of s a = Some rid" "room_of s b = Some rid" "rid \<noteq> []"
    "a \<noteq> []" "b \<noteq> []" "a \<noteq> b" "k = ''a'' \<or> k = ''b''"
    "\<And>n. rooms (leave_current_room a n s) = (rooms s)(rid \<mapsto> [(k, b)])"
    "\<And>n. peer_of (leave_current_room a n s) = (peer_of s)(a := None, b := None)"
    "\<And>n. room_of (leave_current_room a n s) = (room_of s)(a := None)"
    "\<And>n. message_queues (leave_current_room a n s) =
       (if n then message_queues (enqueue b ''peer-left'' [] s) else message_queues s)"
    by (rule leave_paired [OF c ab]) blast
  let ?L = "\<lambda>n. leave_current_room a n s"
  have L: "rooms (?L n) rid = Some [(k, b)]" "room_of (?L n) b = Some rid" "peer_of (?L n) b = None"
    "peer_of (?L n) a = None" "room_of (?L n) a = None" for n
    using f(2,6) by (simp_all add: f(8,9,10))
  have Lq: "message_queues (?L True) b
      = map_option (\<lambda>q. q @ [\<lparr>event = ''peer-left'', data = []\<rparr>]) (message_queues s b)"
    by (simp add: f(11) enqueue_queue)
  have lv: "snd (leave (Some a) s) = enqueue a ''status'' [(''msg'', JStr ''Left the chat.'')] (?L True)"
    using f(4) by (simp add: leave_def truthy_def Let_def)
  have 1: "rooms (snd (leave (Some a) s)) rid = Some [(k, b)] \<and> room_of (snd (leave (Some a) s)) b = Some rid
      \<and> peer_of (snd (leave (Some a) s)) b = None \<and> peer_of (snd (leave (Some a) s)) a \<noteq> Some b
      \<and> room_of (snd (leave (Some a) s)) a \<noteq> Some rid"
    by (simp add: lv L)
  have q1: "message_queues (snd (leave (Some a) s)) b
      = map_option (\<lambda>q. q @ [\<lparr>event = ''peer-left'', data = []\<rparr>]) (message_queues s b)"
    using f(6) by (simp add: lv enqueue_queue Lq)
  have fr: "rooms (snd (find_partner u (Some a) (?L n))) rid = Some [(k, b)]
      \<and> room_of (snd (find_partner u (Some a) (?L n))) b = Some rid
      \<and> peer_of (snd (find_partner u (Some a) (?L n))) b = None
      \<and> peer_of (snd (find_partner u (Some a) (?L n))) a \<noteq> Some b
      \<and> room_of (snd (find_partner u (Some a) (?L n))) a \<noteq> Some rid
      \<and> message_queues (snd (find_partner u (Some a) (?L n))) b = message_queues (?L n) b" for n
  proof -
    have cl: "consistent (?L n)" by (rule leave_consistent [OF c])
    have ul: "rooms (?L n) u = None" by (rule leave_rooms_fresh [OF u])
    have id: "left_room a (?L n) = ?L n" by (rule left_room_id [OF L(5)])
    have z: "room_of (left_room a (?L n)) b = Some rid" by (simp only: id L(2))
    note fp = find_partner_frame [OF cl f(4) z ul]
    show ?thesis using fp by (simp only: id L simp_thms)
  qed
  have nx: "snd (next_partner u (Some a) s) = snd (find_partner u (Some a) (?L True))"
    using f(4) by (simp add: next_partner_def truthy_def)
  have fp: "find_partner u (Some a) s = find_partner u (Some a) (?L False)"
    using f(1,4) L(5) [of False]
    by (simp add: find_partner_def truthy_def Let_def)
  have 2: "rooms (snd (next_partner u (Some a) s)) rid = Some [(k, b)]
      \<and> room_of (snd (next_partner u (Some a) s)) b = Some rid
      \<and> peer_of (snd (next_partner u (Some a) s)) b = None
      \<and> peer_of (snd (next_partner u (Some a) s)) a \<noteq> Some b
      \<and> room_of (snd (next_partner u (Some a) s)) a \<noteq> Some rid"
    using fr [of True] by (simp only: nx simp_thms)
  have q2: "message_queues (snd (next_partner u (Some a) s)) b
      = map_option (\<lambda>q. q @ [\<lparr>event = ''peer-left'', data = []\<rparr>]) (message_queues s b)"
    using fr [of True] by (simp only: nx Lq)
  have 3: "rooms (snd (find_partner u (Some a) s)) rid = Some [(k, b)]
      \<and> room_of (snd (find_partner u (Some a) s)) b = Some rid
      \<and> peer_of (snd (find_partner u (Some a) s)) b = None
      \<and> peer_of (snd (find_partner u (Some a) s)) a \<noteq> Some b
      \<and> room_of (snd (find_partner u (Some a) s)) a \<noteq> Some rid"
    using fr [of False] by (simp only: fp simp_thms)
  show ?thesis
    using f(1,4,6,7) 1 q1 2 q2 3 by blast
qed


text \<open>
  C5. Peer notification: in a reachable state where A is paired with B and B has a queue,
  a Leave by A, and likewise a Next by A (its room uuid not the id of an existing room),
  appends exactly one \<open>peer-left\<close> event to B's queue; afterwards B has no Peer Index
  entry, and the room that B's Room Index entry names does not list A as a member.
\<close>
theorem peer_notified_once:
  assumes "reachable s" "peer_of s a = Some b" "message_queues s b = Some q" "rooms s u = None"
  shows "message_queues (snd (leave (Some a) s)) b = Some (q @ [\<lparr>event = ''peer-left'', data = []\<rparr>])
    \<and> peer_of (snd (leave (Some a) s)) b = None
    \<and> (\<forall>r m. room_of (snd (leave (Some a) s)) b = Some r
          \<longrightarrow> rooms (snd (leave (Some a) s)) r = Some m \<longrightarrow> a \<notin> snd ` set m)
    \<and> message_queues (snd (next_partner u (Some a) s)) b
          = Some (q @ [\<lparr>event = ''peer-left'', data = []\<rparr>])
    \<and> peer_of (snd (next_partner u (Some a) s)) b = None
    \<and> (\<forall>r m. room_of (snd (next_partner u (Some a) s)) b = Some r
          \<longrightarrow> rooms (snd (next_partner u (Some a) s)) r = Some m \<longrightarrow> a \<notin> snd ` set m)"
proof -
  have c: "consistent s" by (rule reachable_consistent [OF assms(1)])
  from paired_leave_effects [OF c assms(2,4)]
  obtain rid k where f: "a \<noteq> b"
    and st: "\<And>s'. s' = snd (leave (Some a) s) \<or> s' = snd (next_partner u (Some a) s) \<Longrightarrow>
          rooms s' rid = Some [(k, b)] \<and> room_of s' b = Some rid \<and> peer_of s' b = None"
    and qu: "\<And>s'. s' = snd (leave (Some a) s) \<or> s' = snd (next_partner u (Some a) s) \<Longrightarrow>
          message_queues s' b
            = map_option (\<lambda>q. q @ [\<lparr>event = ''peer-left'', data = []\<rparr>]) (message_queues s b)"
    by auto
  have g: "message_queues s' b = Some (q @ [\<lparr>event = ''peer-left'', data = []\<rparr>])
      \<and> peer_of s' b = None
      \<and> (\<forall>r m. room_of s' b = Some r \<longrightarrow> rooms s' r = Some m \<longrightarrow> a \<notin> snd ` set m)"
    if h: "s' = snd (leave (Some a) s) \<or> s' = snd (next_partner u (Some a) s)" for s'
    using st [OF h] qu [OF h] f assms(3) by auto
  show ?thesis using g [of "snd (leave (Some a) s)"] g [of "snd (next_partner u (Some a) s)"]
    by blast
qed

theorem peer_notified_once_witness:
  "reachable ex_paired \<and> peer_of ex_paired ''A'' = Some ''B''
    \<and> message_queues ex_left ''B''
        = Some [\<lparr>event = ''matched'',
                 data = [(''room'', JStr ''r1''), (''role'', JStr ''callee''), (''peer'', JStr ''A'')]\<rparr>,
                \<lparr>event = ''peer-left'', data = []\<rparr>]
    \<and> peer_of ex_left ''B'' = None
    \<and> room_of ex_left ''B'' = Some ''r1'' \<and> rooms ex_left ''r1'' = Some [(''b'', ''B'')]
    \<and> ''A'' \<notin> snd ` set [(''b'', ''B'')]
    \<and> message_queues (snd (next_partner ''r2'' (Some ''A'') ex_paired)) ''B''
        = Some [\<lparr>event = ''matched'',
                 data = [(''room'', JStr ''r1''), (''role'', JStr ''callee''), (''peer'', JStr ''A'')]\<rparr>,
                \<lparr>event = ''peer-left'', data = []\<rparr>]
    \<and> peer_of (snd (next_partner ''r2'' (Some ''A'') ex_paired)) ''B'' = None"
proof -
  have p: "peer_of ex_paired ''A'' = Some ''B''"
    and q: "message_queues ex_paired ''B'' = Some [\<lparr>event = ''matched'',
                 data = [(''room'', JStr ''r1''), (''role'', JStr ''callee''), (''peer'', JStr ''A'')]\<rparr>]"
    and u: "rooms ex_paired ''r2'' = None"
    by (simp_all add: ex_paired_eq)
  note t = peer_notified_once [OF reachable_ex_paired p q u, folded ex_left_def]
  show ?thesis using t reachable_ex_paired p ex_left_fields by simp
qed

text \<open>
  C1, as the code has it. In every reachable state every room has one or two members. When
  a client A that is paired with B leaves its room, through Leave, through Next or through
  the implicit leave of FindPartner, that operation removes A from the room's members,
  removes A's Room Index entry for the room and both Peer Index entries, and keeps the room
  with B as its only member and B's Room Index entry naming it (\<open>one_member_left\<close>).
\<close>
theorem rooms_one_or_two_members:
  assumes "reachable s"
  shows "(\<forall>r m. rooms s r = Some m \<longrightarrow> length m = 1 \<or> length m = 2)
    \<and> (\<forall>a b rid u. peer_of s a = Some b \<and> room_of s a = Some rid \<and> rooms s u = None \<longrightarrow>
          one_member_left a b rid (snd (leave (Some a) s))
          \<and> one_member_left a b rid (snd (next_partner u (Some a) s))
          \<and> one_member_left a b rid (snd (find_partner u (Some a) s)))"
proof -
  have c: "consistent s" by (rule reachable_consistent [OF assms])
  then have rk: "rooms_ok s" by (simp add: consistent_def)
  have 1: "length m = 1 \<or> length m = 2" if "rooms s r = Some m" for r m
    by (rule rooms_okD(1) [OF rk that])
  have 2: "one_member_left a b rid (snd (leave (Some a) s))
          \<and> one_member_left a b rid (snd (next_partner u (Some a) s))
          \<and> one_member_left a b rid (snd (find_partner u (Some a) s))"
    if h: "peer_of s a = Some b" "room_of s a = Some rid" "rooms s u = None" for a b rid u
  proof -
    from paired_leave_effects [OF c h(1,3)] h(2)
    obtain k where k: "k = ''a'' \<or> k = ''b''"
      and st: "\<And>s'. s' = snd (leave (Some a) s) \<or> s' = snd (next_partner u (Some a) s)
            \<or> s' = snd (find_partner u (Some a) s) \<Longrightarrow>
          rooms s' rid = Some [(k, b)] \<and> room_of s' b = Some rid \<and> peer_of s' b = None
          \<and> peer_of s' a \<noteq> Some b \<and> room_of s' a \<noteq> Some rid"
      by auto
    have "one_member_left a b rid s'"
      if "s' = snd (leave (Some a) s) \<or> s' = snd (next_partner u (Some a) s)
            \<or> s' = snd (find_partner u (Some a) s)" for s'
      using st [OF that] k unfolding one_member_left_def by blast
    then show ?thesis by blast
  qed
  show ?thesis using 1 2 by blast
qed

text \<open>
  C1 as stated fails: after A and B are paired in room \<open>r1\<close> and A leaves, the room
  \<open>r1\<close> is still in the Room Store with B alone, and B's Room Index entry still names it.
\<close>

theorem rooms_one_or_two_members_counterexample:
  "reachable ex_paired \<and> peer_of ex_paired ''A'' = Some ''B''
    \<and> rooms ex_paired ''r1'' = Some [(''a'', ''A''), (''b'', ''B'')]
    \<and> ex_left = snd (leave (Some ''A'') ex_paired) \<and> reachable ex_left
    \<and> rooms ex_left ''r1'' = Some [(''b'', ''B'')] \<and> length [(''b'', ''B'')] = (1::nat)
    \<and> room_of ex_left ''B'' = Some ''r1''"
  using reachable_ex_paired reachable_ex_left ex_left_fields
  by (simp add: ex_paired_eq ex_left_def)

theorem rooms_one_or_two_members_witness:
  "reachable ex_paired \<and> peer_of ex_paired ''A'' = Some ''B'' \<and> room_of ex_paired ''A'' = Some ''r1''
    \<and> rooms ex_paired ''r2'' = None
    \<and> rooms ex_paired ''r1'' = Some [(''a'', ''A''), (''b'', ''B'')]
    \<and> (length [(''a'', ''A''), (''b'', ''B'')] = (1::nat) \<or> length [(''a'', ''A''), (''b'', ''B'')] = (2::nat))
    \<and> one_member_left ''A'' ''B'' ''r1'' ex_left
    \<and> one_member_left ''A'' ''B'' ''r1'' (snd (next_partner ''r2'' (Some ''A'') ex_paired))
    \<and> one_member_left ''A'' ''B'' ''r1'' (snd (find_partner ''r2'' (Some ''A'') ex_paired))"
proof -
  have p: "peer_of ex_paired ''A'' = Some ''B''" "room_of ex_paired ''A'' = Some ''r1''"
    "rooms ex_paired ''r2'' = None" "rooms ex_paired ''r1'' = Some [(''a'', ''A''), (''b'', ''B'')]"
    by (simp_all add: ex_paired_eq)
  note t = rooms_one_or_two_members [OF reachable_ex_paired, folded ex_left_def]
  have "one_member_left ''A'' ''B'' ''r1'' (snd (leave (Some ''A'') ex_paired))
    \<and> one_member_left ''A'' ''B'' ''r1'' (snd (next_partner ''r2'' (Some ''A'') ex_paired))
    \<and> one_member_left ''A'' ''B'' ''r1'' (snd (find_partner ''r2'' (Some ''A'') ex_paired))"
    using t p(1-3) by blast
  then show ?thesis using reachable_ex_paired p by (simp add: ex_left_def)
qed

end
